theory Spec2Isabelle
  imports Complex_Main "HOL-Library.Word" "HOL-Library.Monad_Syntax"
begin

unbundle bit_operations_syntax

section \<open>GPS disciplined FE-5680A controller: the embedding\<close>

text \<open>
  A shallow embedding of \<^verbatim>\<open>GPSDO_FE_v3.c\<close> (the non-FE405 build with \<^verbatim>\<open>DEBUG\<close>
  defined, as the file is configured).

  Machine integers are words of the AVR's widths: \<^verbatim>\<open>unsigned char\<close> is \<open>8 word\<close>,
  \<^verbatim>\<open>int\<close> and \<^verbatim>\<open>unsigned int\<close> are \<open>16 word\<close>, \<^verbatim>\<open>long\<close> and
  \<^verbatim>\<open>unsigned long\<close> are \<open>32 word\<close> (signed values are read with \<open>sint\<close>).

  \<^verbatim>\<open>double\<close> values are modelled by \<open>real\<close>: the arithmetic of the control loop is
  taken as exact, rounding of the machine's floating point is not modelled. A
  floating point division is written \<open>fdiv\<close> and yields \<open>None\<close> when the divisor is
  zero, so a division by zero is a visible outcome of the model and not HOL's \<open>x / 0 = 0\<close>.

  Interrupt handlers and one pass of the main loop are each taken as one indivisible
  step; the state is the set of the program's global and static variables.
  The debug telemetry (\<^verbatim>\<open>tx_pstr\<close>, \<^verbatim>\<open>tx_str\<close>), the LEDs and the watchdog
  are write-only for the control loop and are left out; the hardware that the loop reads
  (oscillator-ready pin, clock selection, push button, free running timer) is an input of
  each pass.
\<close>

type_synonym u8 = "8 word"
type_synonym u16 = "16 word"
type_synonym u32 = "32 word"

subsection \<open>Constants of the build\<close>

abbreviation (input) F_CPU :: u32 where "F_CPU \<equiv> 30000000"
abbreviation (input) BIT_REDUCE :: nat where "BIT_REDUCE \<equiv> 2"
abbreviation (input) GAIN :: real where "GAIN \<equiv> of_nat (1466 div 2 ^ BIT_REDUCE)"
abbreviation (input) START_GAIN :: real where "START_GAIN \<equiv> GAIN / 100"
abbreviation (input) TC_FAST :: u16 where "TC_FAST \<equiv> 100"
abbreviation (input) TC_MED :: u16 where "TC_MED \<equiv> 1800"
abbreviation (input) TC_SLOW :: u16 where "TC_SLOW \<equiv> 7200"
abbreviation (input) DAMPING :: real where "DAMPING \<equiv> 175 / 100"
abbreviation (input) DAC_SIGN :: real where "DAC_SIGN \<equiv> 1"
abbreviation (input) QE_COMPENSATION :: real where "QE_COMPENSATION \<equiv> 15 / 10"
abbreviation (input) PHASE_ADC_MIDPOINT :: u16 where "PHASE_ADC_MIDPOINT \<equiv> 1024"
abbreviation (input) BUTTON_BLINK_TICKS :: u32 where "BUTTON_BLINK_TICKS \<equiv> F_CPU div 2"
abbreviation (input) RX_BUF_LEN :: nat where "RX_BUF_LEN \<equiv> 96"
abbreviation (input) MODE_START :: u8 where "MODE_START \<equiv> 0"
abbreviation (input) MODE_FAST :: u8 where "MODE_FAST \<equiv> 1"
abbreviation (input) MODE_MED :: u8 where "MODE_MED \<equiv> 2"
abbreviation (input) MODE_SLOW :: u8 where "MODE_SLOW \<equiv> 3"

subsection \<open>The program state\<close>

text \<open>
  The globals of the file, and the two \<^verbatim>\<open>static\<close> locals (\<open>last_timer_val\<close> of the
  capture interrupt, \<open>last_pps_count\<close> of \<^verbatim>\<open>main\<close>). A character buffer holds the C
  string stored in it (the bytes before the first NUL); \<open>rx_buf\<close> holds the
  \<open>rx_str_len\<close> bytes received so far, so \<open>rx_str_len\<close> is its length. \<open>osc_tx\<close> is
  the stream of bytes written to the oscillator's UART by \<^verbatim>\<open>tx_osc_byte\<close>.
\<close>

record gpsdo =
  last_dac_value :: u32
  iTerm :: real
  trim_value :: real
  average_phase_error :: real
  average_pps_error :: real
  mode :: u8
  exit_timer :: u16
  enter_timer :: u16
  pps_count :: u32
  gps_locked :: u8
  rx_buf :: string
  irq_adc_value :: u16
  irq_time_span :: u32
  last_osc_locked :: u8
  last_gps_locked :: u8
  pdop_buf :: string
  time_buf :: string
  date_buf :: string
  pps_err_buf :: string
  button_blink_time :: u32
  last_timer_val :: u32
  last_pps_count :: u32
  osc_tx :: "u8 list"

text \<open>What one pass of the main loop reads from the hardware.\<close>

record hw_in =
  osc_locked :: bool      \<comment> \<open>\<^verbatim>\<open>(PORTC.IN & OSC_RDY) == 0\<close>\<close>
  on_rc32m :: bool        \<comment> \<open>\<^verbatim>\<open>(CLK.CTRL & CLK_SCLKSEL_gm) == CLK_SCLKSEL_RC32M_gc\<close>\<close>
  button_pushed :: bool   \<comment> \<open>\<^verbatim>\<open>check_buttons()\<close> returned non-zero\<close>
  timer_led :: u32        \<comment> \<open>\<^verbatim>\<open>timer_value()\<close> read by the LED code\<close>
  timer_btn :: u32        \<comment> \<open>\<^verbatim>\<open>timer_value()\<close> read after a button push\<close>

subsection \<open>Arithmetic helpers\<close>

definition fdiv :: "real \<Rightarrow> real \<Rightarrow> real option" where
  "fdiv a b = (if b = 0 then None else Some (a / b))"

definition udiv :: "'a::len word \<Rightarrow> 'a word \<Rightarrow> 'a word option" where
  "udiv a b = (if b = 0 then None else Some (a div b))"

text \<open>Conversion of a \<^verbatim>\<open>double\<close> to an integer type discards the fraction (rounds
  towards zero); a value outside the target's range wraps here.\<close>

definition trunc :: "real \<Rightarrow> int" where
  "trunc x = (if 0 \<le> x then \<lfloor>x\<rfloor> else \<lceil>x\<rceil>)"

definition to_long :: "real \<Rightarrow> u32" where
  "to_long x = word_of_int (trunc x)"

definition to_int :: "real \<Rightarrow> u16" where
  "to_int x = word_of_int (trunc x)"

definition of_long :: "u32 \<Rightarrow> real" where
  "of_long x = of_int (sint x)"

definition labs :: "u32 \<Rightarrow> u32" where
  "labs x = (if sint x < 0 then - x else x)"

subsection \<open>The oscillator link: \<^verbatim>\<open>writeDacValue\<close>\<close>

text \<open>The loop \<^verbatim>\<open>for(int i = 3; i >= 0; i--)\<close>: \<open>tx_octets value n cksum\<close> sends the
  octets \<open>n - 1\<close> down to \<open>0\<close> of \<open>value\<close> and returns them with the checksum.\<close>

fun tx_octets :: "u32 \<Rightarrow> nat \<Rightarrow> u8 \<Rightarrow> u8 list \<times> u8" where
  "tx_octets val 0 cksum = ([], cksum)"
| "tx_octets val (Suc i) cksum =
     (let octet = (ucast (signed_drop_bit (i * 8) val) :: u8);
          (rest, ck) = tx_octets val i (cksum XOR octet)
      in (octet # rest, ck))"

definition dac_frame :: "u32 \<Rightarrow> bool \<Rightarrow> u8 list" where
  "dac_frame val non_volatile =
     (let shifted = push_bit BIT_REDUCE val;
          (octets, cksum) = tx_octets shifted 4 0
      in [if non_volatile then 0x2c else 0x2e, 0x09, 0x00,
          if non_volatile then 0x25 else 0x27] @ octets @ [cksum])"

definition writeDacValue :: "u32 \<Rightarrow> bool \<Rightarrow> gpsdo \<Rightarrow> gpsdo" where
  "writeDacValue val non_volatile s =
     (if val = last_dac_value s then s
      else s\<lparr>last_dac_value := val, osc_tx := osc_tx s @ dac_frame val non_volatile\<rparr>)"

text \<open>Modelled from the spec: the receiving side of the tuning frame. The source only
  sends frames (its read-back code is compiled out), so checksum validation and decoding
  follow the frame layout of the spec: nine bytes, a header checksum that covers the three
  header bytes, a payload checksum that is the XOR of the four payload bytes, and the
  shift by \<open>BIT_REDUCE\<close> undone by an arithmetic shift.\<close>

definition frame_valid :: "u8 list \<Rightarrow> bool" where
  "frame_valid f =
     (length f = 9 \<and> (f ! 0 = 0x2c \<or> f ! 0 = 0x2e) \<and>
      f ! 3 = f ! 0 XOR f ! 1 XOR f ! 2 \<and>
      f ! 8 = f ! 4 XOR f ! 5 XOR f ! 6 XOR f ! 7)"

definition be32 :: "u8 \<Rightarrow> u8 \<Rightarrow> u8 \<Rightarrow> u8 \<Rightarrow> u32" where
  "be32 a b c d =
     push_bit 24 (ucast a) OR push_bit 16 (ucast b) OR push_bit 8 (ucast c) OR ucast d"

definition frame_decode :: "u8 list \<Rightarrow> (u32 \<times> bool) option" where
  "frame_decode f =
     (if frame_valid f
      then Some (signed_drop_bit BIT_REDUCE (be32 (f ! 4) (f ! 5) (f ! 6) (f ! 7)), f ! 0 = 0x2c)
      else None)"

subsection \<open>The capture interrupt\<close>

text \<open>\<^verbatim>\<open>ISR(TCC5_CCA_vect)\<close>: \<open>timer_val\<close> is the captured 32 bit count and
  \<open>adc_value\<close> the conversion result. Writing 0 to \<^verbatim>\<open>pps_err_buf[0]\<close> makes the
  string in that buffer empty.\<close>

definition TCC5_CCA_vect :: "u32 \<Rightarrow> u16 \<Rightarrow> gpsdo \<Rightarrow> gpsdo" where
  "TCC5_CCA_vect timer_val adc_value s =
     s\<lparr>irq_adc_value := adc_value,
       irq_time_span := timer_val - last_timer_val s,
       last_timer_val := timer_val,
       pps_err_buf := [],
       pps_count := pps_count s + 1\<rparr>"

subsection \<open>GPS sentences\<close>

definition hexes :: string where
  "hexes = ''0123456789abcdef''"

text \<open>\<^verbatim>\<open>strchr_P(hexes, c)\<close> as an index: the terminating NUL counts as part of the
  string, so the character 0 is found at index 16.\<close>

fun index_of :: "char \<Rightarrow> string \<Rightarrow> nat \<Rightarrow> nat option" where
  "index_of c [] k = None"
| "index_of c (x # xs) k = (if x = c then Some k else index_of c xs (Suc k))"

definition hexChar :: "char \<Rightarrow> u8" where
  "hexChar c0 =
     (let c = (if of_char (CHR ''A'') \<le> (of_char c0 :: nat) \<and> (of_char c0 :: nat) \<le> of_char (CHR ''F'')
               then char_of (of_char c0 + (of_char (CHR ''a'') - of_char (CHR ''A'') :: nat))
               else c0)
      in case index_of c (hexes @ [CHR 0x00]) 0 of None \<Rightarrow> 0 | Some k \<Rightarrow> of_nat k)"

text \<open>A pointer into the received line is the C string that starts there: the characters
  up to the terminating NUL. \<open>cstr\<close> cuts a buffer at its first NUL.\<close>

definition cstr :: "string \<Rightarrow> string" where
  "cstr bs = takeWhile (\<lambda>c. c \<noteq> CHR 0x00) bs"

definition strchr :: "string \<Rightarrow> char \<Rightarrow> string option" where
  "strchr p c = (case dropWhile (\<lambda>x. x \<noteq> c) p of [] \<Rightarrow> None | r \<Rightarrow> Some r)"

text \<open>\<^verbatim>\<open>*ptr\<close>: at the end of the string it reads the NUL.\<close>

definition deref :: "string \<Rightarrow> char" where
  "deref p = (case p of [] \<Rightarrow> CHR 0x00 | c # _ \<Rightarrow> c)"

fun skip_commas :: "string \<Rightarrow> nat \<Rightarrow> string option" where
  "skip_commas p 0 = Some p"
| "skip_commas p (Suc n) =
     (case strchr p (CHR '','') of
        None \<Rightarrow> None
      | Some r \<Rightarrow> skip_commas (tl r) n)"

text \<open>The checksum loop \<^verbatim>\<open>for(i = 1; i < str_len; i++)\<close>, run over the bytes from index
  \<open>i\<close> on; it returns the final \<open>i\<close> and the checksum.\<close>

fun cksum_scan :: "string \<Rightarrow> nat \<Rightarrow> u8 \<Rightarrow> nat \<times> u8" where
  "cksum_scan [] i checksum = (i, checksum)"
| "cksum_scan (c # cs) i checksum =
     (if c = CHR ''*'' then (i, checksum)
      else cksum_scan cs (Suc i) (checksum XOR of_char c))"

text \<open>\<^verbatim>\<open>unsigned char len = strchr(ptr, ',') - ptr\<close>, clamped to \<open>cap\<close>, and the
  \<^verbatim>\<open>memcpy\<close> of that many characters. When there is no further comma \<^verbatim>\<open>strchr\<close>
  returns \<^verbatim>\<open>NULL\<close> and the difference of the two pointers is undefined in C: the
  result is \<open>None\<close>.\<close>

definition copy_field :: "string \<Rightarrow> nat \<Rightarrow> string option" where
  "copy_field p cap =
     (case strchr p (CHR '','') of
        None \<Rightarrow> None
      | Some r \<Rightarrow> Some (take (min (length p - length r) cap) p))"

text \<open>\<^verbatim>\<open>handleGPS\<close>, called with the received line in \<open>rx_buf\<close>. \<open>None\<close> is the
  undefined pointer difference of \<open>copy_field\<close>.\<close>

definition handleGPS :: "gpsdo \<Rightarrow> gpsdo option" where
  "handleGPS s =
     (let buf = rx_buf s; str_len = length buf in
      if str_len < 9 then Some s
      else
        let (i, checksum) = cksum_scan (drop 1 buf) 1 0 in
        if i > str_len - 3 then Some s
        else
          let sent_checksum =
                (ucast (push_bit 4 (ucast (hexChar (buf ! (i + 1))) :: u16)
                        OR ucast (hexChar (buf ! (i + 2)))) :: u8) in
          if sent_checksum \<noteq> checksum then Some s
          else
            let ptr = cstr buf in
            if take 6 buf = ''$GPRMC'' then
              (case skip_commas ptr 1 of
                 None \<Rightarrow> Some s
               | Some p1 \<Rightarrow>
                   let s1 = s\<lparr>time_buf := take 6 p1\<rparr> in
                   (case skip_commas p1 8 of
                      None \<Rightarrow> Some s1
                    | Some p2 \<Rightarrow> Some (s1\<lparr>date_buf := take 6 p2\<rparr>)))
            else if take 6 buf = ''$GPGSA'' then
              (case skip_commas ptr 2 of
                 None \<Rightarrow> Some s
               | Some p1 \<Rightarrow>
                   let s1 = s\<lparr>gps_locked :=
                              (if deref p1 = CHR ''3'' \<or> deref p1 = CHR ''2'' then 1 else 0)\<rparr> in
                   (case skip_commas p1 13 of
                      None \<Rightarrow> Some s1
                    | Some p2 \<Rightarrow> map_option (\<lambda>t. s1\<lparr>pdop_buf := t\<rparr>) (copy_field p2 4)))
            else if take 8 buf = ''$PSTI,00'' then
              (case skip_commas ptr 4 of
                 None \<Rightarrow> Some s
               | Some p1 \<Rightarrow> map_option (\<lambda>t. s\<lparr>pps_err_buf := t\<rparr>) (copy_field p1 4))
            else Some s)"

text \<open>\<^verbatim>\<open>ISR(USARTC0_RXC_vect)\<close> for the received character \<open>rx_char\<close>.\<close>

definition USARTC0_RXC_vect :: "char \<Rightarrow> gpsdo \<Rightarrow> gpsdo option" where
  "USARTC0_RXC_vect rx_char s =
     (if rx_buf s = [] \<and> rx_char \<noteq> CHR ''$'' then Some s
      else if rx_char = CHR 0x0D \<or> rx_char = CHR 0x0A then
        map_option (\<lambda>t. t\<lparr>rx_buf := []\<rparr>) (handleGPS s)
      else if Suc (length (rx_buf s)) = RX_BUF_LEN then Some (s\<lparr>rx_buf := []\<rparr>)
      else Some (s\<lparr>rx_buf := rx_buf s @ [rx_char]\<rparr>))"

subsection \<open>Mode changes\<close>

definition mode_to_tc :: "u8 \<Rightarrow> u16" where
  "mode_to_tc m =
     (if m = MODE_START \<or> m = MODE_FAST then TC_FAST
      else if m = MODE_MED then TC_MED
      else if m = MODE_SLOW then TC_SLOW
      else 0)"

definition tc_real :: "u8 \<Rightarrow> real" where
  "tc_real m = real (unat (mode_to_tc m))"

definition reset_pll :: "gpsdo \<Rightarrow> gpsdo option" where
  "reset_pll s = do {
     s1 \<leftarrow> (if mode s \<noteq> MODE_START
            then do { q \<leftarrow> fdiv (iTerm s) (tc_real (mode s));
                      Some (s\<lparr>trim_value := trim_value s - q\<rparr>) }
            else Some s);
     Some (s1\<lparr>iTerm := 0, average_phase_error := 0, average_pps_error := 0,
              mode := MODE_START, exit_timer := 0\<rparr>)
   }"

definition downgrade_mode :: "gpsdo \<Rightarrow> gpsdo option" where
  "downgrade_mode s = do {
     let s1 = s\<lparr>enter_timer := 100 * ucast (mode s)\<rparr>;
     let s2 = s1\<lparr>mode := mode s1 - 1\<rparr>;
     ratio \<leftarrow> fdiv (tc_real (mode s2)) (tc_real (mode s2 + 1));
     Some (s2\<lparr>iTerm := iTerm s2 * ratio\<rparr>)
   }"

subsection \<open>One pass of the main loop, up to the consumption of the quantization error\<close>

text \<open>The edge detection on \<open>gps_locked\<close>.\<close>

definition gps_edge :: "gpsdo \<Rightarrow> gpsdo option" where
  "gps_edge s =
     (if gps_locked s \<noteq> last_gps_locked s then
        (let s1 = s\<lparr>last_gps_locked := gps_locked s\<rparr> in
         if gps_locked s1 \<noteq> 0 then Some s1
         else if mode s1 > 0 then downgrade_mode s1
         else Some s1)
      else Some s)"

text \<open>The edge detection on the oscillator's lock output.\<close>

definition osc_edge :: "hw_in \<Rightarrow> gpsdo \<Rightarrow> gpsdo option" where
  "osc_edge hw s =
     (let osc = (if osc_locked hw then 1 else 0 :: u8) in
      if osc \<noteq> last_osc_locked s then
        (let s1 = s\<lparr>last_osc_locked := osc\<rparr> in
         if osc_locked hw then Some s1
         else reset_pll (writeDacValue 0 False s1))
      else Some s)"

text \<open>The LED code changes the state only where it ends the button's blink pattern.\<close>

definition leds :: "hw_in \<Rightarrow> gpsdo \<Rightarrow> gpsdo" where
  "leds hw s =
     (if button_blink_time s \<noteq> 0 \<and> timer_led hw - button_blink_time s > BUTTON_BLINK_TICKS
      then s\<lparr>button_blink_time := 0\<rparr> else s)"

definition button :: "hw_in \<Rightarrow> gpsdo \<Rightarrow> gpsdo" where
  "button hw s =
     (if button_pushed hw \<and> mode s = MODE_SLOW \<and> button_blink_time s = 0 then
        (let dac_value = to_long (DAC_SIGN * trim_value s);
             s1 = writeDacValue dac_value True s
         in s1\<lparr>button_blink_time := (if timer_btn hw = 0 then 1 else timer_btn hw)\<rparr>)
      else s)"

text \<open>A pass either ends early (\<^verbatim>\<open>continue\<close>) or takes the quantization error text
  out of \<open>pps_err_buf\<close> and goes on to use it.\<close>

datatype fetched = Skip gpsdo | Observe string gpsdo

definition fetch :: "hw_in \<Rightarrow> gpsdo \<Rightarrow> fetched option" where
  "fetch hw s0 = do {
     s1 \<leftarrow> gps_edge s0;
     s2 \<leftarrow> osc_edge hw s1;
     if osc_locked hw \<and> on_rc32m hw then Some (Skip s2)
     else do {
       let unlocked = (gps_locked s2 = 0 \<or> \<not> osc_locked hw);
       let s3 = button hw (leds hw s2);
       if last_pps_count s3 = pps_count s3 then Some (Skip s3)
       else if pps_err_buf s3 = [] then Some (Skip s3)
       else do {
         let s4 = s3\<lparr>last_pps_count := pps_count s3\<rparr>;
         if unlocked then Some (Skip (s4\<lparr>pps_err_buf := []\<rparr>))
         else Some (Observe (pps_err_buf s4) (s4\<lparr>pps_err_buf := []\<rparr>))
       }
     }
   }"

subsection \<open>The rest of the pass: error sample, filters, mode logic, PI controller\<close>

definition update_filters :: "u16 \<Rightarrow> u16 \<Rightarrow> u32 \<Rightarrow> u32 \<Rightarrow> gpsdo \<Rightarrow> gpsdo option" where
  "update_filters time_constant current_phase_error intracycle_delta seconds_delta s = do {
     let filter_time = time_constant div 10;
     a \<leftarrow> fdiv (average_phase_error s) (real (unat filter_time));
     b \<leftarrow> fdiv (real_of_int (sint current_phase_error)) (real (unat filter_time));
     let s1 = s\<lparr>average_phase_error := average_phase_error s - a + b\<rparr>;
     c \<leftarrow> fdiv (average_pps_error s1) (real (unat filter_time));
     d \<leftarrow> fdiv (of_long intracycle_delta)
              (real (unat ((seconds_delta + 1) * ucast filter_time)));
     Some (s1\<lparr>average_pps_error := average_pps_error s1 - c + d\<rparr>)
   }"

text \<open>\<^verbatim>\<open>if (mode == MODE_START) { ... continue; }\<close>\<close>

definition start_mode :: "gpsdo \<Rightarrow> gpsdo" where
  "start_mode s =
     (let adj_val = (1000000000 / real (unat F_CPU)) * average_pps_error s * START_GAIN;
          s1 = s\<lparr>trim_value := trim_value s - adj_val\<rparr>;
          dac_value = to_long (DAC_SIGN * trim_value s1);
          s2 = writeDacValue dac_value False s1
      in if \<bar>average_pps_error s2\<bar> \<le> 25 / 100 then
           (let s3 = s2\<lparr>exit_timer := exit_timer s2 + 1\<rparr> in
            if (exit_timer s3 \<ge> 60 \<and> \<bar>average_phase_error s3\<bar> \<le> 20) \<or> exit_timer s3 \<ge> 600
            then s3\<lparr>mode := MODE_FAST, exit_timer := 0\<rparr>
            else s3)
         else s2\<lparr>exit_timer := 0\<rparr>)"

text \<open>\<^verbatim>\<open>if (mode != MODE_SLOW) { ... }\<close>: the test for an upgrade. The local
  \<^verbatim>\<open>time_constant\<close> is returned with the state.\<close>

definition upgrade_check :: "u16 \<Rightarrow> gpsdo \<Rightarrow> (u16 \<times> gpsdo) option" where
  "upgrade_check time_constant s =
     (if mode s \<noteq> MODE_SLOW then
        (if \<bar>average_phase_error s\<bar> \<le> 5 then
           (let s1 = s\<lparr>exit_timer := exit_timer s + 1\<rparr> in
            if exit_timer s1 \<ge> 200 * ucast (mode s1) * ucast (mode s1) then do {
              let s2 = s1\<lparr>exit_timer := 0\<rparr>;
              let s3 = s2\<lparr>mode := mode s2 + 1\<rparr>;
              let tc = mode_to_tc (mode s3);
              ratio \<leftarrow> fdiv (real (unat tc)) (tc_real (mode s3 - 1));
              Some (tc, s3\<lparr>iTerm := iTerm s3 * ratio\<rparr>)
            }
            else Some (time_constant, s1))
         else Some (time_constant, s\<lparr>exit_timer := 0\<rparr>))
      else Some (time_constant, s))"

text \<open>\<^verbatim>\<open>if (mode != MODE_FAST) { ... }\<close>: the check for a downgrade.\<close>

definition downgrade_check :: "u16 \<Rightarrow> gpsdo \<Rightarrow> (u16 \<times> gpsdo) option" where
  "downgrade_check time_constant s =
     (if mode s \<noteq> MODE_FAST then
        (if enter_timer s > 0 then Some (time_constant, s\<lparr>enter_timer := enter_timer s - 1\<rparr>)
         else if \<bar>average_phase_error s\<bar> \<ge> 50 * real (unat (mode s)) then do {
           s1 \<leftarrow> downgrade_mode s;
           Some (mode_to_tc (mode s1), s1)
         }
         else Some (time_constant, s))
      else Some (time_constant, s))"

text \<open>The integral's increment, and the off-loading of the integral into the trim value.\<close>

definition pi_accumulate :: "u16 \<Rightarrow> gpsdo \<Rightarrow> (real \<times> gpsdo) option" where
  "pi_accumulate time_constant s = do {
     let pTerm = average_phase_error s * GAIN;
     inc \<leftarrow> fdiv pTerm (real (unat time_constant) * DAMPING);
     Some (pTerm, s\<lparr>iTerm := iTerm s + inc\<rparr>)
   }"

definition offload :: "u16 \<Rightarrow> gpsdo \<Rightarrow> gpsdo" where
  "offload time_constant s =
     (let iTerm_modulo = 1000 * real (unat time_constant) in
      if \<bar>iTerm s\<bar> > iTerm_modulo then
        (let sign = (if iTerm s < 0 then - 1 else 1 :: real) in
         s\<lparr>iTerm := iTerm s - sign * iTerm_modulo, trim_value := trim_value s - sign * 1000\<rparr>)
      else s)"

definition pi_update :: "u16 \<Rightarrow> gpsdo \<Rightarrow> gpsdo option" where
  "pi_update time_constant s = do {
     (pTerm, s1) \<leftarrow> pi_accumulate time_constant s;
     adj_val \<leftarrow> fdiv (pTerm + iTerm s1) (real (unat time_constant));
     let dac_value = to_long (DAC_SIGN * (trim_value s1 - adj_val) + 5 / 10);
     let s2 = writeDacValue dac_value False s1;
     Some (offload time_constant s2)
   }"

text \<open>From \<^verbatim>\<open>long pps_cycle_delta = irq_time_span - F_CPU\<close> to the end of the loop body;
  \<open>pps_err\<close> is the value of \<^verbatim>\<open>atof(temp)\<close>.\<close>

definition discipline :: "real \<Rightarrow> gpsdo \<Rightarrow> gpsdo option" where
  "discipline pps_err s = do {
     let pps_cycle_delta = irq_time_span s - F_CPU;
     let seconds_delta = (pps_cycle_delta + F_CPU div 2) div F_CPU;
     let intracycle_delta = pps_cycle_delta - seconds_delta * F_CPU;
     q \<leftarrow> udiv (labs intracycle_delta) (seconds_delta + 1);
     if q > F_CPU div 10000 then Some s
     else do {
       let time_constant = mode_to_tc (mode s);
       let current_phase_error =
             signed_drop_bit 1 (PHASE_ADC_MIDPOINT - irq_adc_value s)
             + to_int (QE_COMPENSATION * pps_err + 5 / 10);
       s1 \<leftarrow> update_filters time_constant current_phase_error intracycle_delta seconds_delta s;
       if mode s1 = MODE_START then Some (start_mode s1)
       else if \<bar>average_pps_error s1\<bar> \<ge> 5 / 10 then reset_pll s1
       else do {
         (tc1, s2) \<leftarrow> upgrade_check time_constant s1;
         (tc2, s3) \<leftarrow> downgrade_check tc1 s2;
         pi_update tc2 s3
       }
     }
   }"

text \<open>One pass of \<^verbatim>\<open>while(1)\<close>. \<open>atof\<close> is the C library's conversion of the text
  to a \<^verbatim>\<open>double\<close>.\<close>

definition main_loop :: "(string \<Rightarrow> real) \<Rightarrow> hw_in \<Rightarrow> gpsdo \<Rightarrow> gpsdo option" where
  "main_loop atof hw s =
     (case fetch hw s of
        None \<Rightarrow> None
      | Some (Skip s') \<Rightarrow> Some s'
      | Some (Observe temp s') \<Rightarrow> discipline (atof temp) s')"

subsection \<open>Executions\<close>

text \<open>The state when \<^verbatim>\<open>main\<close> enters its loop: zero-initialised globals, then the
  assignments before \<^verbatim>\<open>while(1)\<close>.\<close>

definition boot :: gpsdo where
  "boot = \<lparr>last_dac_value = 0x7fffffff, iTerm = 0, trim_value = 0,
           average_phase_error = 0, average_pps_error = 0, mode = MODE_START,
           exit_timer = 0, enter_timer = 0, pps_count = 0, gps_locked = 0,
           rx_buf = [], irq_adc_value = 0, irq_time_span = 0,
           last_osc_locked = 0xff, last_gps_locked = 0xff,
           pdop_buf = [], time_buf = [], date_buf = [], pps_err_buf = [],
           button_blink_time = 0, last_timer_val = 0, last_pps_count = 0, osc_tx = []\<rparr>"

datatype event =
    PPS u32 u16      \<comment> \<open>a timing pulse: captured timer value and ADC result\<close>
  | RX char          \<comment> \<open>a character from the GPS receiver\<close>
  | LOOP hw_in       \<comment> \<open>one pass of the main loop\<close>

fun step :: "(string \<Rightarrow> real) \<Rightarrow> event \<Rightarrow> gpsdo \<Rightarrow> gpsdo option" where
  "step atof (PPS timer_val adc_value) s = Some (TCC5_CCA_vect timer_val adc_value s)"
| "step atof (RX c) s = USARTC0_RXC_vect c s"
| "step atof (LOOP hw) s = main_loop atof hw s"

fun run :: "(string \<Rightarrow> real) \<Rightarrow> event list \<Rightarrow> gpsdo \<Rightarrow> gpsdo option" where
  "run atof [] s = Some s"
| "run atof (e # es) s = (case step atof e s of None \<Rightarrow> None | Some s' \<Rightarrow> run atof es s')"


subsection \<open>Notions of the specification\<close>

text \<open>The fields that make up the control state of the disciplining engine.\<close>

definition ctl :: "gpsdo \<Rightarrow> u8 \<times> real \<times> real \<times> real \<times> real \<times> u16 \<times> u16" where
  "ctl s = (mode s, iTerm s, trim_value s, average_phase_error s, average_pps_error s,
            exit_timer s, enter_timer s)"

text \<open>A GPS line as the specification describes its validation: the XOR of the bytes
  between the leading \<open>$\<close> and the first \<open>*\<close>, the value of the two characters after
  that \<open>*\<close>, and the number of commas of the line (as a C string).\<close>

definition nmea_checksum :: "string \<Rightarrow> u8" where
  "nmea_checksum buf =
     foldl (\<lambda>k c. k XOR of_char c) 0 (takeWhile (\<lambda>c. c \<noteq> CHR ''*'') (drop 1 buf))"

definition star_index :: "string \<Rightarrow> nat" where
  "star_index buf = 1 + length (takeWhile (\<lambda>c. c \<noteq> CHR ''*'') (drop 1 buf))"

definition sent_checksum :: "string \<Rightarrow> u8" where
  "sent_checksum buf =
     ucast (push_bit 4 (ucast (hexChar (buf ! (star_index buf + 1))) :: u16)
            OR ucast (hexChar (buf ! (star_index buf + 2))))"

definition commas :: "string \<Rightarrow> nat" where
  "commas buf = length (filter (\<lambda>c. c = CHR '','') (cstr buf))"

text \<open>A line is rejected when it is shorter than nine characters, has no \<open>*\<close> with two
  characters after it, fails the checksum comparison, or has fewer commas than stand
  before the first field that the handler reads from a sentence of its kind.\<close>

definition rejected :: "string \<Rightarrow> bool" where
  "rejected buf =
     (length buf < 9
      \<or> length buf - 3 < star_index buf
      \<or> sent_checksum buf \<noteq> nmea_checksum buf
      \<or> (take 6 buf = ''$GPRMC'' \<and> commas buf < 1)
      \<or> (take 6 buf = ''$GPGSA'' \<and> commas buf < 2)
      \<or> (take 8 buf = ''$PSTI,00'' \<and> commas buf < 4))"

subsection \<open>Sample inputs and states\<close>

definition hw_ok :: hw_in where
  "hw_ok = \<lparr>osc_locked = True, on_rc32m = False, button_pushed = False,
            timer_led = 0, timer_btn = 0\<rparr>"

definition fast_state :: gpsdo where
  "fast_state = boot\<lparr>mode := MODE_FAST, iTerm := 100, gps_locked := 1,
                     last_gps_locked := 1, last_osc_locked := 1\<rparr>"

definition start_lost :: gpsdo where
  "start_lost = boot\<lparr>exit_timer := 30, average_pps_error := 1 / 10, gps_locked := 0,
                     last_gps_locked := 1, last_osc_locked := 1\<rparr>"

definition slow_lost :: gpsdo where
  "slow_lost = boot\<lparr>mode := MODE_SLOW, iTerm := 7200, average_phase_error := 3, gps_locked := 0,
                    last_gps_locked := 1, last_osc_locked := 1\<rparr>"

definition windup_state :: gpsdo where
  "windup_state = boot\<lparr>mode := MODE_FAST, iTerm := 100100, trim_value := 5000,
                       gps_locked := 1, last_gps_locked := 1, last_osc_locked := 1\<rparr>"

definition bad_checksum_line :: string where
  "bad_checksum_line = ''$GPGSA,A,3,02,06,12,24,25,29,,,,,,,1.61,1.33,0.90*02''"

definition short_gsa_line :: string where
  "short_gsa_line = ''$GPGSA,A,3*30''"

subsection \<open>Executions and scenarios\<close>

text \<open>The variables shared between the interrupt handlers and the main loop.\<close>

definition shared :: "gpsdo \<Rightarrow> string \<times> u16 \<times> u32 \<times> u32 \<times> u32 \<times> u8" where
  "shared s = (pps_err_buf s, irq_adc_value s, irq_time_span s, pps_count s, last_pps_count s,
               gps_locked s)"

text \<open>How \<open>mode\<close> may differ between two states: not at all, by one step up or down, or
  by a reset (Start, with the integral, both averages and \<open>exit_timer\<close> zeroed).\<close>

definition mode_step :: "gpsdo \<Rightarrow> gpsdo \<Rightarrow> bool" where
  "mode_step s s' =
     (mode s' \<le> MODE_SLOW \<and>
      (mode s' = mode s \<or> mode s' = mode s + 1 \<or> mode s' = mode s - 1 \<or>
       (mode s' = MODE_START \<and> iTerm s' = 0 \<and> average_phase_error s' = 0 \<and>
        average_pps_error s' = 0 \<and> exit_timer s' = 0)))"

text \<open>The states the program can be in: \<open>boot\<close>, and every state that a pulse, a
  received character or a pass of the main loop leads to from such a state.\<close>

inductive reachable :: "(string \<Rightarrow> real) \<Rightarrow> gpsdo \<Rightarrow> bool" for atof where
  reachable_boot: "reachable atof boot"
| reachable_step: "reachable atof s \<Longrightarrow> step atof e s = Some s' \<Longrightarrow> reachable atof s'"

text \<open>Lines of the receiver: a quantization error of \<open>0.0\<close>, an empty quantization
  error field, and a satellite status sentence with a 3D fix.\<close>

definition qe_zero_line :: string where
  "qe_zero_line = ''$PSTI,00,2,0,0.0,,*32''"

definition qe_empty_line :: string where
  "qe_empty_line = ''$PSTI,00,2,0,,,*1C''"

definition gsa_fix_line :: string where
  "gsa_fix_line = ''$GPGSA,A,3,02,06,12,24,25,29,,,,,,,1.61,1.33,0.90*01''"

text \<open>The events of one second: the pulse, then a line from the receiver (ended by a
  carriage return), then a pass of the main loop.\<close>

definition second_events :: "u32 \<Rightarrow> u16 \<Rightarrow> string \<Rightarrow> hw_in \<Rightarrow> event list" where
  "second_events timer adc line hw = PPS timer adc # map RX (line @ [CHR 0x0D]) @ [LOOP hw]"

text \<open>\<open>n\<close> seconds in a row, each pulse exactly \<open>F_CPU\<close> cycles after the one before.\<close>

fun seconds :: "(string \<Rightarrow> real) \<Rightarrow> hw_in \<Rightarrow> u16 \<Rightarrow> string \<Rightarrow> nat \<Rightarrow> gpsdo \<Rightarrow> gpsdo option" where
  "seconds atof hw adc line 0 s = Some s"
| "seconds atof hw adc line (Suc n) s =
     (case seconds atof hw adc line n s of
        None \<Rightarrow> None
      | Some s' \<Rightarrow> run atof (second_events (last_timer_val s' + F_CPU) adc line hw) s')"

text \<open>A state with zeroed averages in which GPS and oscillator are locked and seen as
  locked, no button blink is running, no line is half received and the last pulse has
  been dealt with.\<close>

definition tracking :: "gpsdo \<Rightarrow> bool" where
  "tracking s = (average_phase_error s = 0 \<and> average_pps_error s = 0
     \<and> gps_locked s = 1 \<and> last_gps_locked s = 1 \<and> last_osc_locked s = 1
     \<and> button_blink_time s = 0 \<and> rx_buf s = [] \<and> last_pps_count s = pps_count s)"

text \<open>The same without the conditions on the averages and on the pulse counters.\<close>

definition idle_locked :: "gpsdo \<Rightarrow> bool" where
  "idle_locked s = (gps_locked s = 1 \<and> last_gps_locked s = 1 \<and> last_osc_locked s = 1
     \<and> button_blink_time s = 0 \<and> rx_buf s = [])"

text \<open>The state after boot, a fix sentence and one pass of the loop; the same with a
  pulse captured and not yet dealt with; a pass that sees the oscillator unlocked.\<close>

definition locked_start :: gpsdo where
  "locked_start = boot\<lparr>gps_locked := 1, last_osc_locked := 1, last_gps_locked := 1,
                       pdop_buf := ''1.61''\<rparr>"


definition hw_unlocked :: hw_in where
  "hw_unlocked = \<lparr>osc_locked = False, on_rc32m = False, button_pushed = False,
                  timer_led = 0, timer_btn = 0\<rparr>"



section \<open>Properties\<close>

subsection \<open>Time constants and frame lemmas\<close>

lemma mode_to_tc_simps:
  "mode_to_tc 0 = 100" "mode_to_tc 1 = 100" "mode_to_tc 2 = 1800" "mode_to_tc 3 = 7200"
  by (simp_all add: mode_to_tc_def)

lemma tc_real_simps:
  "tc_real 0 = 100" "tc_real 1 = 100" "tc_real 2 = 1800" "tc_real 3 = 7200"
  by (simp_all add: tc_real_def mode_to_tc_def)

lemma mode_cases:
  assumes "(m::u8) \<le> 3"
  shows "m = 0 \<or> m = 1 \<or> m = 2 \<or> m = 3"
proof -
  from assms have "unat m \<le> 3" by (simp add: word_le_nat_alt)
  then have "unat m = unat (0::u8) \<or> unat m = unat (1::u8)
    \<or> unat m = unat (2::u8) \<or> unat m = unat (3::u8)"
    by (simp, linarith)
  then show ?thesis
    by (blast dest: unsigned_word_eqI)
qed

lemma tc_real_pos: "m \<le> 3 \<Longrightarrow> 0 < tc_real m"
  using mode_cases[of m] by (auto simp add: tc_real_simps)

lemma writeDac_frame [simp]:
  "iTerm (writeDacValue v nv s) = iTerm s" "trim_value (writeDacValue v nv s) = trim_value s"
  "average_phase_error (writeDacValue v nv s) = average_phase_error s"
  "average_pps_error (writeDacValue v nv s) = average_pps_error s"
  "mode (writeDacValue v nv s) = mode s" "exit_timer (writeDacValue v nv s) = exit_timer s"
  "enter_timer (writeDacValue v nv s) = enter_timer s" "pps_count (writeDacValue v nv s) = pps_count s"
  "gps_locked (writeDacValue v nv s) = gps_locked s" "rx_buf (writeDacValue v nv s) = rx_buf s"
  "irq_adc_value (writeDacValue v nv s) = irq_adc_value s" "irq_time_span (writeDacValue v nv s) = irq_time_span s"
  "last_osc_locked (writeDacValue v nv s) = last_osc_locked s"
  "last_gps_locked (writeDacValue v nv s) = last_gps_locked s"
  "pps_err_buf (writeDacValue v nv s) = pps_err_buf s"
  "button_blink_time (writeDacValue v nv s) = button_blink_time s"
  "last_timer_val (writeDacValue v nv s) = last_timer_val s"
  "last_pps_count (writeDacValue v nv s) = last_pps_count s"
  by (simp_all add: writeDacValue_def)

subsection \<open>The tuning frame\<close>

lemma octet_drop: "i \<le> 3 \<Longrightarrow> (ucast (signed_drop_bit (i * 8) (v::u32)) :: u8) = ucast (drop_bit (i * 8) v)"
  apply (rule bit_word_eqI)
  apply (auto simp add: bit_simps)
  done

lemma tx_octets_4:
  "tx_octets w 4 k =
     ([ucast (drop_bit 24 w), ucast (drop_bit 16 w), ucast (drop_bit 8 w), ucast w],
      k XOR ucast (drop_bit 24 w) XOR ucast (drop_bit 16 w) XOR ucast (drop_bit 8 w) XOR ucast w)"
proof -
  have e: "(4::nat) = Suc (Suc (Suc (Suc 0)))" by simp
  have o3: "(ucast (signed_drop_bit 24 w) :: u8) = ucast (drop_bit 24 w)"
    using octet_drop[of 3 w] by simp
  have o2: "(ucast (signed_drop_bit 16 w) :: u8) = ucast (drop_bit 16 w)"
    using octet_drop[of 2 w] by simp
  have o1: "(ucast (signed_drop_bit 8 w) :: u8) = ucast (drop_bit 8 w)"
    using octet_drop[of 1 w] by simp
  show ?thesis
    unfolding e by (simp add: Let_def o3 o2 o1 xor.assoc)
qed

lemma dac_frame_eq:
  "dac_frame v nv =
     [if nv then 0x2c else 0x2e, 0x09, 0x00, if nv then 0x25 else 0x27,
       ucast (drop_bit 24 (push_bit 2 v)), ucast (drop_bit 16 (push_bit 2 v)),
       ucast (drop_bit 8 (push_bit 2 v)), ucast (push_bit 2 v),
       ucast (drop_bit 24 (push_bit 2 v)) XOR ucast (drop_bit 16 (push_bit 2 v))
         XOR ucast (drop_bit 8 (push_bit 2 v)) XOR ucast (push_bit 2 v)]"
  by (simp add: dac_frame_def tx_octets_4 Let_def)

lemma be32_octets:
  "be32 (ucast (drop_bit 24 w)) (ucast (drop_bit 16 w)) (ucast (drop_bit 8 w)) (ucast w) = (w::u32)"
proof (rule bit_word_eqI)
  fix n assume n: "n < LENGTH(32)"
  consider "n < 8" | "8 \<le> n" "n < 16" | "16 \<le> n" "n < 24" | "24 \<le> n" "n < 32"
    using n by fastforce
  then show "bit (be32 (ucast (drop_bit 24 w)) (ucast (drop_bit 16 w)) (ucast (drop_bit 8 w)) (ucast w)) n = bit w n"
    by cases (auto simp add: be32_def bit_simps)
qed

lemma sdrop_push:
  assumes "- (2 ^ 29) \<le> sint v" "sint v < 2 ^ 29"
  shows "signed_drop_bit 2 (push_bit 2 v) = (v::u32)"
proof -
  have "sint (push_bit 2 v) = 4 * sint v"
    using assms by (simp add: push_bit_eq_mult sint_word_ariths signed_take_bit_int_eq_self)
  hence "sint (signed_drop_bit 2 (push_bit 2 v)) = sint v"
    by (simp add: sint_signed_drop_bit_eq drop_bit_eq_div)
  thus ?thesis by (rule signed_word_eqI)
qed

lemma xor_cancel_l: "(a::u8) XOR b = a XOR c \<longleftrightarrow> b = c"
proof
  assume "a XOR b = a XOR c"
  then have "a XOR (a XOR b) = a XOR (a XOR c)" by simp
  then show "b = c" by (simp only: bit.xor_left_self)
qed simp

lemma xor_cancel_r: "(b::u8) XOR a = c XOR a \<longleftrightarrow> b = c"
  using xor_cancel_l[of a b c] by (simp add: xor.commute)

lemma xor_cancel_m: "(x::u8) XOR b XOR y = x XOR c XOR y \<longleftrightarrow> b = c"
  by (simp add: xor_cancel_l xor_cancel_r)

lemma fv9: "frame_valid [a0, a1, a2, a3, a4, a5, a6, a7, a8] \<longleftrightarrow>
   ((a0 = 0x2c \<or> a0 = 0x2e) \<and> a3 = a0 XOR a1 XOR a2 \<and> a8 = a4 XOR a5 XOR a6 XOR a7)"
  by (simp add: frame_valid_def)

lemma corrupt9:
  assumes v: "frame_valid [a0, a1, a2, a3, a4, a5, a6, a7, a8]"
    and k: "k < 9" and b: "b \<noteq> [a0, a1, a2, a3, a4, a5, a6, a7, a8] ! k"
  shows "\<not> frame_valid ([a0, a1, a2, a3, a4, a5, a6, a7, a8][k := b])"
proof -
  from k consider "k = 0" | "k = 1" | "k = 2" | "k = 3" | "k = 4" | "k = 5" | "k = 6" | "k = 7" | "k = 8"
    by linarith
  then show ?thesis
  proof cases
    case 1 then show ?thesis using v b by (auto simp add: fv9 xor_cancel_r)
  next
    case 2 then show ?thesis using v b by (auto simp add: fv9 xor_cancel_m)
  next
    case 3 then show ?thesis using v b by (auto simp add: fv9 xor_cancel_l)
  next
    case 4 then show ?thesis using v b by (auto simp add: fv9)
  next
    case 5 then show ?thesis using v b by (auto simp add: fv9 xor_cancel_r)
  next
    case 6 then show ?thesis using v b by (auto simp add: fv9 xor_cancel_m xor_cancel_r)
  next
    case 7 then show ?thesis using v b by (auto simp add: fv9 xor_cancel_m xor_cancel_l xor_cancel_r)
  next
    case 8 then show ?thesis using v b by (auto simp add: fv9 xor_cancel_l)
  next
    case 9 then show ?thesis using v b by (auto simp add: fv9)
  qed
qed

lemma frame_valid_dac: "frame_valid (dac_frame v nv)"
  by (simp add: dac_frame_eq fv9)

lemma frame_decode_dac:
  "frame_decode (dac_frame v nv) = Some (signed_drop_bit 2 (push_bit 2 v), nv)"
  using frame_valid_dac[of v nv]
  by (simp add: frame_decode_def) (simp add: dac_frame_eq be32_octets)

text \<open>
  Claim C8 (as amended). For every tuning value \<open>v\<close> and persistence flag \<open>nv\<close> the frame
  that \<^verbatim>\<open>writeDacValue\<close> emits is opcode (\<open>0x2c\<close> persistent, \<open>0x2e\<close> volatile), length
  low byte 9, length high byte 0, header checksum (\<open>0x25\<close> or \<open>0x27\<close>), the four bytes
  of \<open>v\<close> shifted left by \<open>BIT_REDUCE\<close> with the most significant first, and the XOR of
  these four bytes. The frame is appended to the oscillator's stream whenever \<open>v\<close> differs
  from the last value written. Decoding the frame gives back \<open>v\<close> and \<open>nv\<close> when \<open>v\<close> fits
  in 30 bits as a signed number, and a frame with any single byte changed fails the
  checksum validation.
\<close>

theorem tuning_frame_layout_roundtrip:
  fixes v :: u32 and nv :: bool
  defines "w \<equiv> push_bit BIT_REDUCE v"
  shows "dac_frame v nv =
           [if nv then 0x2c else 0x2e, 0x09, 0x00, if nv then 0x25 else 0x27,
            ucast (drop_bit 24 w), ucast (drop_bit 16 w), ucast (drop_bit 8 w), ucast w,
            ucast (drop_bit 24 w) XOR ucast (drop_bit 16 w) XOR ucast (drop_bit 8 w) XOR ucast w]
         \<and> be32 (dac_frame v nv ! 4) (dac_frame v nv ! 5) (dac_frame v nv ! 6) (dac_frame v nv ! 7) = w
         \<and> (v \<noteq> last_dac_value s \<longrightarrow>
              osc_tx (writeDacValue v nv s) = osc_tx s @ dac_frame v nv)
         \<and> (- (2 ^ 29) \<le> sint v \<and> sint v < 2 ^ 29 \<longrightarrow>
              frame_decode (dac_frame v nv) = Some (v, nv))
         \<and> (\<forall>k b. k < 9 \<and> b \<noteq> dac_frame v nv ! k \<longrightarrow>
              \<not> frame_valid ((dac_frame v nv)[k := b]))"
proof -
  have 1: "dac_frame v nv =
           [if nv then 0x2c else 0x2e, 0x09, 0x00, if nv then 0x25 else 0x27,
            ucast (drop_bit 24 w), ucast (drop_bit 16 w), ucast (drop_bit 8 w), ucast w,
            ucast (drop_bit 24 w) XOR ucast (drop_bit 16 w) XOR ucast (drop_bit 8 w) XOR ucast w]"
    unfolding w_def by (rule dac_frame_eq)
  have 2: "be32 (dac_frame v nv ! 4) (dac_frame v nv ! 5) (dac_frame v nv ! 6) (dac_frame v nv ! 7) = w"
    unfolding 1 by (simp add: be32_octets)
  have 3: "v \<noteq> last_dac_value s \<longrightarrow> osc_tx (writeDacValue v nv s) = osc_tx s @ dac_frame v nv"
    by (simp add: writeDacValue_def)
  have 4: "- (2 ^ 29) \<le> sint v \<and> sint v < 2 ^ 29 \<longrightarrow> frame_decode (dac_frame v nv) = Some (v, nv)"
    by (simp add: frame_decode_dac sdrop_push)
  have 5: "\<forall>k b. k < 9 \<and> b \<noteq> dac_frame v nv ! k \<longrightarrow> \<not> frame_valid ((dac_frame v nv)[k := b])"
  proof (intro allI impI)
    fix k b assume a: "k < 9 \<and> b \<noteq> dac_frame v nv ! k"
    have fv: "frame_valid (dac_frame v nv)" by (rule frame_valid_dac)
    show "\<not> frame_valid ((dac_frame v nv)[k := b])"
      using fv a unfolding 1 by (intro corrupt9) simp_all
  qed
  from 1 2 3 4 5 show ?thesis by blast
qed

text \<open>The theorem at the value \<open>-5\<close>, written volatile from the boot state.\<close>

theorem tuning_frame_witness:
  "dac_frame (- 5) False = [0x2e, 0x09, 0x00, 0x27, 0xff, 0xff, 0xff, 0xec, 0x13]
   \<and> osc_tx (writeDacValue (- 5) False boot) = [0x2e, 0x09, 0x00, 0x27, 0xff, 0xff, 0xff, 0xec, 0x13]
   \<and> frame_decode (dac_frame (- 5) False) = Some (- 5, False)
   \<and> \<not> frame_valid ([0x2e, 0x09, 0x00, 0x27, 0xff, 0xff, 0xff, 0xec, 0x13][7 := 0xed])"
proof -
  have f: "dac_frame (- 5) False = [0x2e, 0x09, 0x00, 0x27, 0xff, 0xff, 0xff, 0xec, 0x13]"
    by (simp add: dac_frame_eq)
  have r: "- (2 ^ 29) \<le> sint (- 5 :: u32) \<and> sint (- 5 :: u32) < 2 ^ 29" by simp
  have b: "(- 5 :: u32) \<noteq> last_dac_value boot" by (simp add: boot_def)
  have k: "(7::nat) < 9 \<and> (0xed :: u8) \<noteq> dac_frame (- 5) False ! 7" by (simp add: f)
  from tuning_frame_layout_roundtrip[of "- 5" False boot] r b k
  have "osc_tx (writeDacValue (- 5) False boot) = osc_tx boot @ dac_frame (- 5) False"
    and "frame_decode (dac_frame (- 5) False) = Some (- 5, False)"
    and "\<not> frame_valid ((dac_frame (- 5) False)[7 := 0xed])"
    by blast+
  then show ?thesis by (simp add: f boot_def)
qed

text \<open>
  Claim C8 as stated fails: the length field of the frame is 9 and not 4, and the value
  \<open>2^29\<close> does not survive the left shift (the frame decodes to \<open>-2^29\<close>).
\<close>

theorem tuning_frame_counterexample:
  "dac_frame 0x20000000 False = [0x2e, 0x09, 0x00, 0x27, 0x80, 0x00, 0x00, 0x00, 0x80]
   \<and> dac_frame 0x20000000 False ! 1 \<noteq> 4
   \<and> frame_decode (dac_frame 0x20000000 False) = Some (0xE0000000, False)
   \<and> (0xE0000000 :: u32) \<noteq> 0x20000000"
proof -
  have f: "dac_frame 0x20000000 False = [0x2e, 0x09, 0x00, 0x27, 0x80, 0x00, 0x00, 0x00, 0x80]"
    by (simp add: dac_frame_eq)
  have d: "frame_decode (dac_frame 0x20000000 False) = Some (0xE0000000, False)"
    by (simp add: frame_decode_dac)
  show ?thesis using f d by simp
qed

subsection \<open>Reset\<close>

text \<open>
  Claim C2 (as amended). For every reset that happens while \<open>mode\<close> is one of Start, Fast,
  Med, Slow, \<^verbatim>\<open>reset_pll\<close> returns, and afterwards \<open>trim_value\<close> is the old
  \<open>trim_value\<close> minus \<open>iTerm / tc(mode)\<close> (unchanged when the mode was Start),
  \<open>iTerm\<close>, \<open>exit_timer\<close> and both error averages are 0, and the mode is Start.
\<close>

theorem reset_pll_folds_integral:
  assumes "mode s \<le> MODE_SLOW"
  shows "\<exists>s'. reset_pll s = Some s'
           \<and> trim_value s' = (if mode s = MODE_START then trim_value s
                               else trim_value s - iTerm s / tc_real (mode s))
           \<and> iTerm s' = 0 \<and> exit_timer s' = 0
           \<and> average_phase_error s' = 0 \<and> average_pps_error s' = 0
           \<and> mode s' = MODE_START"
  using tc_real_pos[OF assms]
  by (simp add: reset_pll_def fdiv_def)

text \<open>The theorem at a state in Fast mode with \<open>iTerm = 100\<close> and \<open>trim_value = 0\<close>.\<close>

theorem reset_pll_folds_witness:
  "mode fast_state \<le> MODE_SLOW
   \<and> (\<exists>s'. reset_pll fast_state = Some s' \<and> trim_value s' = - 1 \<and> iTerm s' = 0
        \<and> exit_timer s' = 0 \<and> average_phase_error s' = 0 \<and> average_pps_error s' = 0
        \<and> mode s' = MODE_START)"
proof -
  have m: "mode fast_state \<le> MODE_SLOW" by (simp add: fast_state_def)
  from reset_pll_folds_integral[OF m] m show ?thesis
    by (simp add: fast_state_def boot_def tc_real_simps)
qed

text \<open>
  Claim C2 as stated fails in the sign: from Fast mode with \<open>iTerm = 100\<close> and
  \<open>trim_value = 0\<close> the reset leaves \<open>trim_value = -1\<close>, where
  \<open>trim_value + iTerm / tc\<close> is \<open>1\<close>.
\<close>

theorem reset_pll_sign_counterexample:
  "map_option trim_value (reset_pll fast_state) = Some (- 1)
   \<and> trim_value fast_state + iTerm fast_state / tc_real (mode fast_state) = 1"
  by (simp add: reset_pll_def fdiv_def fast_state_def boot_def tc_real_simps)

subsection \<open>Loss of the GPS fix\<close>

lemma downgrade_mode_eq:
  assumes "mode s \<le> 3" "mode s \<noteq> 0"
  shows "downgrade_mode s = Some (s\<lparr>enter_timer := 100 * ucast (mode s), mode := mode s - 1,
            iTerm := iTerm s * (tc_real (mode s - 1) / tc_real (mode s))\<rparr>)"
  using mode_cases[OF assms(1)] assms(2)
  by (auto simp add: downgrade_mode_def fdiv_def Let_def tc_real_simps)

lemma gps_edge_lost:
  assumes "gps_locked s = 0" "last_gps_locked s \<noteq> 0" "mode s \<le> 3"
  shows "gps_edge s = Some (if mode s = 0 then s\<lparr>last_gps_locked := 0\<rparr>
           else s\<lparr>last_gps_locked := 0, enter_timer := 100 * ucast (mode s), mode := mode s - 1,
            iTerm := iTerm s * (tc_real (mode s - 1) / tc_real (mode s))\<rparr>)"
proof (cases "mode s = 0")
  case True
  then show ?thesis using assms by (simp add: gps_edge_def Let_def)
next
  case False
  then have "0 < mode s" by (simp add: word_greater_zero_iff)
  then show ?thesis using assms False
    by (simp add: gps_edge_def Let_def downgrade_mode_eq)
qed

lemma ctl_button_leds: "ctl (button hw (leds hw s)) = ctl s"
  by (simp add: ctl_def button_def leds_def Let_def)

lemma gps_locked_button_leds: "gps_locked (button hw (leds hw s)) = gps_locked s"
  by (simp add: button_def leds_def Let_def)

lemma fetch_unlocked:
  assumes g: "gps_edge s = Some s1" and gl: "gps_locked s1 = 0"
    and o: "last_osc_locked s1 = (if osc_locked hw then 1 else 0)"
  shows "\<exists>s'. fetch hw s = Some (Skip s') \<and> ctl s' = ctl s1 \<and> last_gps_locked s' = last_gps_locked s1"
  using g gl o ctl_button_leds[of hw s1]
  by (auto simp add: fetch_def osc_edge_def Let_def ctl_def button_def leds_def)

text \<open>
  Claim C3 (as amended). In the pass of the main loop that sees \<open>gps_locked\<close> changed to
  unlocked (with the oscillator's lock output unchanged), whatever the filter values are:
  when the mode is above Start the engine downgrades by one step (\<open>enter_timer\<close> becomes
  100 times the old mode and \<open>iTerm\<close> is rescaled by the ratio of the time constants);
  when the mode is Start the control state is left as it is. In both cases \<open>trim_value\<close>,
  the two averages and \<open>exit_timer\<close> keep their values: there is no reset.
\<close>

theorem gps_fix_loss_downgrades:
  assumes "gps_locked s = 0" and "last_gps_locked s \<noteq> 0" and "mode s \<le> MODE_SLOW"
    and "last_osc_locked s = (if osc_locked hw then 1 else 0)"
  shows "\<exists>s'. main_loop atof hw s = Some s' \<and> last_gps_locked s' = 0
           \<and> trim_value s' = trim_value s
           \<and> average_phase_error s' = average_phase_error s
           \<and> average_pps_error s' = average_pps_error s
           \<and> exit_timer s' = exit_timer s
           \<and> (if mode s = MODE_START
               then mode s' = MODE_START \<and> iTerm s' = iTerm s \<and> enter_timer s' = enter_timer s
               else mode s' = mode s - 1 \<and> enter_timer s' = 100 * ucast (mode s)
                    \<and> iTerm s' = iTerm s * (tc_real (mode s - 1) / tc_real (mode s)))"
proof -
  let ?s1 = "if mode s = 0 then s\<lparr>last_gps_locked := 0\<rparr>
           else s\<lparr>last_gps_locked := 0, enter_timer := 100 * ucast (mode s), mode := mode s - 1,
            iTerm := iTerm s * (tc_real (mode s - 1) / tc_real (mode s))\<rparr>"
  have g: "gps_edge s = Some ?s1" using assms(1-3) by (rule gps_edge_lost)
  have gl: "gps_locked ?s1 = 0" using assms(1) by simp
  have o: "last_osc_locked ?s1 = (if osc_locked hw then 1 else 0)" using assms(4) by simp
  from fetch_unlocked[OF g gl o] obtain s' where
    f: "fetch hw s = Some (Skip s')" and c: "ctl s' = ctl ?s1" and l: "last_gps_locked s' = last_gps_locked ?s1"
    by blast
  have "main_loop atof hw s = Some s'" using f by (simp add: main_loop_def)
  then show ?thesis using c l by (auto simp add: ctl_def split: if_splits)
qed

text \<open>The theorem at a state in Slow mode: the pass ends in Med with
  \<open>enter_timer = 300\<close>.\<close>

theorem gps_fix_loss_witness:
  "gps_locked slow_lost = 0 \<and> last_gps_locked slow_lost \<noteq> 0 \<and> mode slow_lost \<le> MODE_SLOW
   \<and> last_osc_locked slow_lost = (if osc_locked hw_ok then 1 else 0)
   \<and> (\<exists>s'. main_loop (\<lambda>t. 0) hw_ok slow_lost = Some s' \<and> mode s' = MODE_MED
        \<and> enter_timer s' = 300 \<and> iTerm s' = 1800 \<and> average_phase_error s' = 3)"
proof -
  have a: "gps_locked slow_lost = 0" "last_gps_locked slow_lost \<noteq> 0" "mode slow_lost \<le> MODE_SLOW"
    "last_osc_locked slow_lost = (if osc_locked hw_ok then 1 else 0)"
    by (simp_all add: slow_lost_def hw_ok_def boot_def)
  from gps_fix_loss_downgrades[OF a, of "\<lambda>t. 0"] a show ?thesis
    by (auto simp add: slow_lost_def boot_def tc_real_simps)
qed

text \<open>
  Claim C3 as stated fails in Start mode: with \<open>exit_timer = 30\<close> and
  \<open>average_pps_error = 0.1\<close> the pass that sees the fix lost changes only
  \<open>last_gps_locked\<close>, where \<^verbatim>\<open>reset_pll\<close> would have set both to 0.
\<close>

theorem gps_fix_loss_in_start_counterexample:
  "gps_locked start_lost = 0 \<and> last_gps_locked start_lost = 1 \<and> mode start_lost = MODE_START
   \<and> main_loop (\<lambda>t. 0) hw_ok start_lost = Some (start_lost\<lparr>last_gps_locked := 0\<rparr>)
   \<and> exit_timer (start_lost\<lparr>last_gps_locked := 0\<rparr>) = 30
   \<and> average_pps_error (start_lost\<lparr>last_gps_locked := 0\<rparr>) = 1 / 10
   \<and> map_option exit_timer (reset_pll start_lost) = Some 0
   \<and> map_option average_pps_error (reset_pll start_lost) = Some 0"
  by (simp add: start_lost_def boot_def hw_ok_def main_loop_def fetch_def gps_edge_def osc_edge_def
      button_def leds_def reset_pll_def Let_def)

subsection \<open>Rejected GPS lines\<close>

lemma cksum_scan_eq:
  "cksum_scan cs i k =
     (i + length (takeWhile (\<lambda>c. c \<noteq> CHR ''*'') cs),
      foldl (\<lambda>k c. k XOR of_char c) k (takeWhile (\<lambda>c. c \<noteq> CHR ''*'') cs))"
  by (induction cs arbitrary: i k) simp_all

lemma cksum_scan_spec:
  "cksum_scan (drop 1 buf) 1 0 = (star_index buf, nmea_checksum buf)"
  by (simp add: cksum_scan_eq star_index_def nmea_checksum_def)

lemma strchr_None: "strchr p c = None \<longleftrightarrow> c \<notin> set p"
proof -
  have e: "dropWhile (\<lambda>x. x \<noteq> c) p = [] \<longleftrightarrow> c \<notin> set p"
    by (induction p) auto
  show ?thesis
  proof (cases "dropWhile (\<lambda>x. x \<noteq> c) p")
    case Nil
    then have "c \<notin> set p" using e by blast
    then show ?thesis unfolding strchr_def Nil by simp
  next
    case (Cons a list)
    then have "c \<in> set p" using e by force
    then show ?thesis unfolding strchr_def Cons by simp
  qed
qed

lemma strchr_Some:
  assumes "strchr p c = Some r"
  shows "\<exists>r'. r = c # r' \<and> length (filter (\<lambda>x. x = c) p) = Suc (length (filter (\<lambda>x. x = c) r'))"
proof -
  have d: "dropWhile (\<lambda>x. x \<noteq> c) p = r" and ne: "r \<noteq> []"
    using assms by (auto simp add: strchr_def split: list.splits)
  have h: "hd r = c" using d ne hd_dropWhile[of "\<lambda>x. x \<noteq> c" p] by auto
  have f: "filter (\<lambda>x. x = c) p = filter (\<lambda>x. x = c) r"
    unfolding d[symmetric] by (induction p) auto
  from ne h obtain r' where r: "r = c # r'" by (cases r) auto
  show ?thesis using r f by simp
qed

lemma skip_commas_None:
  "skip_commas p n = None \<longleftrightarrow> length (filter (\<lambda>x. x = CHR '','') p) < n"
proof (induction n arbitrary: p)
  case 0
  then show ?case by simp
next
  case (Suc n)
  show ?case
  proof (cases "strchr p (CHR '','')")
    case None
    then have "CHR '','' \<notin> set p" by (simp add: strchr_None)
    then have "filter (\<lambda>x. x = CHR '','') p = []" by (induction p) auto
    then show ?thesis using None by simp
  next
    case (Some r)
    from strchr_Some[OF Some] obtain r' where
      r: "r = CHR '','' # r'"
      and l: "length (filter (\<lambda>x. x = CHR '','') p) = Suc (length (filter (\<lambda>x. x = CHR '','') r'))"
      by blast
    show ?thesis using Some r l Suc.IH[of r'] by simp
  qed
qed

lemma skip_commas_few: "commas buf < n \<Longrightarrow> skip_commas (cstr buf) n = None"
  by (simp add: skip_commas_None commas_def)

lemma handleGPS_body:
  assumes "\<not> length (rx_buf s) < 9" "\<not> length (rx_buf s) - 3 < star_index (rx_buf s)"
    "sent_checksum (rx_buf s) = nmea_checksum (rx_buf s)"
  shows "handleGPS s =
           (let buf = rx_buf s; ptr = cstr buf in
            if take 6 buf = ''$GPRMC'' then
              (case skip_commas ptr 1 of
                 None \<Rightarrow> Some s
               | Some p1 \<Rightarrow>
                   let s1 = s\<lparr>time_buf := take 6 p1\<rparr> in
                   (case skip_commas p1 8 of
                      None \<Rightarrow> Some s1
                    | Some p2 \<Rightarrow> Some (s1\<lparr>date_buf := take 6 p2\<rparr>)))
            else if take 6 buf = ''$GPGSA'' then
              (case skip_commas ptr 2 of
                 None \<Rightarrow> Some s
               | Some p1 \<Rightarrow>
                   let s1 = s\<lparr>gps_locked :=
                              (if deref p1 = CHR ''3'' \<or> deref p1 = CHR ''2'' then 1 else 0)\<rparr> in
                   (case skip_commas p1 13 of
                      None \<Rightarrow> Some s1
                    | Some p2 \<Rightarrow> map_option (\<lambda>t. s1\<lparr>pdop_buf := t\<rparr>) (copy_field p2 4)))
            else if take 8 buf = ''$PSTI,00'' then
              (case skip_commas ptr 4 of
                 None \<Rightarrow> Some s
               | Some p1 \<Rightarrow> map_option (\<lambda>t. s\<lparr>pps_err_buf := t\<rparr>) (copy_field p1 4))
            else Some s)"
  using assms
  unfolding handleGPS_def Let_def cksum_scan_spec sent_checksum_def
  by (simp del: skip_commas.simps)

lemma prefix_excl:
  "take 6 buf = ''$GPRMC'' \<Longrightarrow> take 6 buf \<noteq> ''$GPGSA''"
  "take 6 buf = ''$GPRMC'' \<Longrightarrow> take 8 buf \<noteq> ''$PSTI,00''"
  "take 6 buf = ''$GPGSA'' \<Longrightarrow> take 8 buf \<noteq> ''$PSTI,00''"
proof -
  have t: "take 6 buf = take 6 (take 8 buf)" by simp
  show "take 6 buf = ''$GPRMC'' \<Longrightarrow> take 6 buf \<noteq> ''$GPGSA''" by simp
  show "take 6 buf = ''$GPRMC'' \<Longrightarrow> take 8 buf \<noteq> ''$PSTI,00''"
    using t by (auto simp del: take_take)
  show "take 6 buf = ''$GPGSA'' \<Longrightarrow> take 8 buf \<noteq> ''$PSTI,00''"
    using t by (auto simp del: take_take)
qed

text \<open>
  Claim C7 (as amended). For every received line that is shorter than nine characters, or
  has no \<open>*\<close> followed by two characters, or whose XOR checksum over the bytes between
  \<open>$\<close> and \<open>*\<close> differs from the value of the two characters after the \<open>*\<close>, or that
  has fewer commas than stand before the first field read from its kind of sentence (one
  for \<open>$GPRMC\<close>, two for \<open>$GPGSA\<close>, four for \<open>$PSTI,00\<close>), the sentence handler
  changes nothing: \<open>gps_locked\<close>, \<open>pps_err_buf\<close> and every other variable keep their
  values.
\<close>

theorem handleGPS_rejects_silently:
  assumes "rejected (rx_buf s)"
  shows "handleGPS s = Some s"
proof (cases "length (rx_buf s) < 9 \<or> length (rx_buf s) - 3 < star_index (rx_buf s)
               \<or> sent_checksum (rx_buf s) \<noteq> nmea_checksum (rx_buf s)")
  case True
  then show ?thesis
    unfolding handleGPS_def Let_def cksum_scan_spec sent_checksum_def
    by (auto simp del: skip_commas.simps)
next
  case False
  then have b: "\<not> length (rx_buf s) < 9" "\<not> length (rx_buf s) - 3 < star_index (rx_buf s)"
    "sent_checksum (rx_buf s) = nmea_checksum (rx_buf s)" by auto
  from assms False consider
      "take 6 (rx_buf s) = ''$GPRMC''" "commas (rx_buf s) < 1"
    | "take 6 (rx_buf s) = ''$GPGSA''" "commas (rx_buf s) < 2"
    | "take 8 (rx_buf s) = ''$PSTI,00''" "commas (rx_buf s) < 4"
    unfolding rejected_def by blast
  then show ?thesis
  proof cases
    case 1
    then show ?thesis
      unfolding handleGPS_body[OF b] Let_def
      by (simp add: skip_commas_few del: skip_commas.simps)
  next
    case 2
    then have "take 6 (rx_buf s) \<noteq> ''$GPRMC''" by simp
    with 2 show ?thesis
      unfolding handleGPS_body[OF b] Let_def
      by (simp add: skip_commas_few del: skip_commas.simps)
  next
    case 3
    then have "take 6 (rx_buf s) \<noteq> ''$GPRMC''" "take 6 (rx_buf s) \<noteq> ''$GPGSA''"
      using prefix_excl(2,3)[of "rx_buf s"] by blast+
    with 3 show ?thesis
      unfolding handleGPS_body[OF b] Let_def
      by (simp add: skip_commas_few del: skip_commas.simps)
  qed
qed

text \<open>The theorem at a complete \<open>$GPGSA\<close> sentence whose checksum digits are wrong.\<close>

theorem handleGPS_rejects_witness:
  "rejected bad_checksum_line
   \<and> handleGPS (boot\<lparr>rx_buf := bad_checksum_line\<rparr>) = Some (boot\<lparr>rx_buf := bad_checksum_line\<rparr>)"
proof -
  have r: "rejected (rx_buf (boot\<lparr>rx_buf := bad_checksum_line\<rparr>))"
    by code_simp
  from handleGPS_rejects_silently[OF r] r show ?thesis by simp
qed

text \<open>
  Claim C7 as stated fails for a \<open>$GPGSA\<close> sentence that is cut short: with a right
  checksum and only two commas, where the handler goes on to ask for thirteen more and
  leaves for want of commas, \<open>gps_locked\<close> has already been changed from 0 to 1.
\<close>

theorem handleGPS_short_gsa_counterexample:
  "gps_locked boot = 0
   \<and> handleGPS (boot\<lparr>rx_buf := short_gsa_line\<rparr>)
       = Some (boot\<lparr>rx_buf := short_gsa_line, gps_locked := 1\<rparr>)
   \<and> commas short_gsa_line = 2
   \<and> skip_commas (cstr short_gsa_line) (2 + 13) = None"
  by code_simp

subsection \<open>Integral anti-windup\<close>

lemma offload_net:
  assumes "0 < T" "T = real (unat tc)"
  shows "trim_value (offload tc s) - (p + iTerm (offload tc s)) / T = trim_value s - (p + iTerm s) / T"
  using assms by (auto simp add: offload_def Let_def field_simps)

lemma offload_abs:
  assumes "\<bar>iTerm s\<bar> > 1000 * real (unat tc)"
  shows "iTerm (offload tc s) = iTerm s - (if iTerm s < 0 then - 1 else 1) * (1000 * real (unat tc))"
    and "trim_value (offload tc s) = trim_value s - (if iTerm s < 0 then - 1 else 1) * 1000"
    and "\<bar>iTerm (offload tc s)\<bar> = \<bar>iTerm s\<bar> - 1000 * real (unat tc)"
  using assms by (auto simp add: offload_def Let_def)

lemma offload_bound:
  assumes "\<bar>iTerm s\<bar> \<le> 2000 * real (unat tc)"
  shows "\<bar>iTerm (offload tc s)\<bar> \<le> 1000 * real (unat tc)"
  using assms by (auto simp add: offload_def Let_def)

lemma offload_id:
  assumes "\<bar>iTerm s\<bar> \<le> 1000 * real (unat tc)"
  shows "offload tc s = s"
  using assms by (auto simp add: offload_def Let_def)

text \<open>
  Claim C9. In a phase-tracking mode, with \<open>time_constant = tc(mode)\<close>, the PI update
  returns; when the integral term after its increment exceeds \<open>1000 * tc(mode)\<close> in
  magnitude, \<open>1000 * tc(mode)\<close> is taken from \<open>iTerm\<close> and 1000 from \<open>trim_value\<close> in
  the direction that makes \<open>|iTerm|\<close> smaller (by exactly \<open>1000 * tc(mode)\<close>), and otherwise
  both are left alone; the net correction \<open>trim_value - (pTerm + iTerm) / tc(mode)\<close> is the
  same before and after the off-loading; and an integral term of magnitude at most
  \<open>2000 * tc(mode)\<close> ends at most \<open>1000 * tc(mode)\<close>.
\<close>

theorem anti_windup_offload:
  assumes m: "mode s = MODE_FAST \<or> mode s = MODE_MED \<or> mode s = MODE_SLOW"
    and tc: "time_constant = mode_to_tc (mode s)"
  shows "\<exists>pTerm s1 dac s'.
           pi_accumulate time_constant s = Some (pTerm, s1)
         \<and> pi_update time_constant s = Some s'
         \<and> s' = offload time_constant (writeDacValue dac False s1)
         \<and> (\<bar>iTerm s1\<bar> > 1000 * tc_real (mode s) \<longrightarrow>
              iTerm s' = iTerm s1 - (if iTerm s1 < 0 then - 1 else 1) * (1000 * tc_real (mode s))
            \<and> trim_value s' = trim_value s1 - (if iTerm s1 < 0 then - 1 else 1) * 1000
            \<and> \<bar>iTerm s'\<bar> = \<bar>iTerm s1\<bar> - 1000 * tc_real (mode s))
         \<and> (\<bar>iTerm s1\<bar> \<le> 1000 * tc_real (mode s) \<longrightarrow>
              iTerm s' = iTerm s1 \<and> trim_value s' = trim_value s1)
         \<and> trim_value s' - (pTerm + iTerm s') / tc_real (mode s)
             = trim_value s1 - (pTerm + iTerm s1) / tc_real (mode s)
         \<and> (\<bar>iTerm s1\<bar> \<le> 2000 * tc_real (mode s) \<longrightarrow> \<bar>iTerm s'\<bar> \<le> 1000 * tc_real (mode s))"
proof -
  have pos: "0 < tc_real (mode s)" using m by (auto simp add: tc_real_simps)
  have T: "tc_real (mode s) = real (unat time_constant)" by (simp add: tc tc_real_def)
  define pTerm where "pTerm = average_phase_error s * GAIN"
  define s1 where "s1 = s\<lparr>iTerm := iTerm s + pTerm / (real (unat time_constant) * DAMPING)\<rparr>"
  define dac where "dac = to_long (DAC_SIGN * (trim_value s1 - (pTerm + iTerm s1) / real (unat time_constant)) + 5 / 10)"
  define s2 where "s2 = writeDacValue dac False s1"
  define s' where "s' = offload time_constant s2"
  have acc: "pi_accumulate time_constant s = Some (pTerm, s1)"
    using pos by (simp add: pi_accumulate_def fdiv_def T pTerm_def s1_def Let_def)
  have upd: "pi_update time_constant s = Some s'"
    using pos by (simp add: pi_update_def acc fdiv_def T Let_def s'_def s2_def dac_def)
  have i2: "iTerm s2 = iTerm s1" and t2: "trim_value s2 = trim_value s1" by (simp_all add: s2_def)
  have a: "\<bar>iTerm s1\<bar> > 1000 * tc_real (mode s) \<longrightarrow>
              iTerm s' = iTerm s1 - (if iTerm s1 < 0 then - 1 else 1) * (1000 * tc_real (mode s))
            \<and> trim_value s' = trim_value s1 - (if iTerm s1 < 0 then - 1 else 1) * 1000
            \<and> \<bar>iTerm s'\<bar> = \<bar>iTerm s1\<bar> - 1000 * tc_real (mode s)"
    using offload_abs[of time_constant s2] by (simp add: s'_def i2 t2 T)
  have b: "\<bar>iTerm s1\<bar> \<le> 1000 * tc_real (mode s) \<longrightarrow> iTerm s' = iTerm s1 \<and> trim_value s' = trim_value s1"
    using offload_id[of s2 time_constant] by (simp add: s'_def i2 t2 T)
  have c: "trim_value s' - (pTerm + iTerm s') / tc_real (mode s)
             = trim_value s1 - (pTerm + iTerm s1) / tc_real (mode s)"
    using offload_net[OF pos T, of s2 pTerm] by (simp add: s'_def i2 t2)
  have d: "\<bar>iTerm s1\<bar> \<le> 2000 * tc_real (mode s) \<longrightarrow> \<bar>iTerm s'\<bar> \<le> 1000 * tc_real (mode s)"
    using offload_bound[of s2 time_constant] by (simp add: s'_def i2 T)
  from acc upd a b c d show ?thesis unfolding s'_def s2_def by blast
qed

text \<open>The theorem in Fast mode with \<open>iTerm = 100100\<close> and \<open>trim_value = 5000\<close>: the
  update ends with \<open>iTerm = 100\<close> and \<open>trim_value = 4000\<close>.\<close>

theorem anti_windup_witness:
  "(mode windup_state = MODE_FAST \<or> mode windup_state = MODE_MED \<or> mode windup_state = MODE_SLOW)
   \<and> (\<exists>s'. pi_update (mode_to_tc (mode windup_state)) windup_state = Some s'
         \<and> iTerm s' = 100 \<and> trim_value s' = 4000
         \<and> trim_value s' - (0 + iTerm s') / 100 = 5000 - (0 + 100100) / 100)"
proof -
  have m: "mode windup_state = MODE_FAST \<or> mode windup_state = MODE_MED \<or> mode windup_state = MODE_SLOW"
    by (simp add: windup_state_def)
  from anti_windup_offload[OF m refl] obtain pTerm s1 dac s' where
    acc: "pi_accumulate (mode_to_tc (mode windup_state)) windup_state = Some (pTerm, s1)"
    and upd: "pi_update (mode_to_tc (mode windup_state)) windup_state = Some s'"
    and big: "\<bar>iTerm s1\<bar> > 1000 * tc_real (mode windup_state) \<longrightarrow>
              iTerm s' = iTerm s1 - (if iTerm s1 < 0 then - 1 else 1) * (1000 * tc_real (mode windup_state))
            \<and> trim_value s' = trim_value s1 - (if iTerm s1 < 0 then - 1 else 1) * 1000
            \<and> \<bar>iTerm s'\<bar> = \<bar>iTerm s1\<bar> - 1000 * tc_real (mode windup_state)"
    by blast
  have s1: "pTerm = 0" "iTerm s1 = 100100" "trim_value s1 = 5000"
    using acc by (auto simp add: pi_accumulate_def fdiv_def windup_state_def boot_def mode_to_tc_simps Let_def)
  have "iTerm s' = 100 \<and> trim_value s' = 4000"
    using big s1 by (simp add: windup_state_def tc_real_simps)
  then show ?thesis using m upd by auto
qed

subsection \<open>Division and mode lemmas for one pass\<close>

lemma mode_to_tc_ne0: "m \<le> 3 \<Longrightarrow> mode_to_tc m \<noteq> 0"
  using mode_cases[of m] by (auto simp add: mode_to_tc_simps)

lemma reset_pll_Some:
  assumes "mode s \<le> 3"
  shows "\<exists>s'. reset_pll s = Some s' \<and> mode s' = 0 \<and> iTerm s' = 0 \<and> average_phase_error s' = 0
            \<and> average_pps_error s' = 0 \<and> exit_timer s' = 0
            \<and> gps_locked s' = gps_locked s \<and> pps_err_buf s' = pps_err_buf s
            \<and> pps_count s' = pps_count s \<and> last_pps_count s' = last_pps_count s"
  using tc_real_pos[OF assms] by (simp add: reset_pll_def fdiv_def)

lemma seconds_delta_le:
  "unat ((x::u32) div 30000000) \<le> 143"
proof -
  have "unat x < 2 ^ 32" using unsigned_less[of x] by simp
  then have "unat x div 30000000 \<le> 143" by simp
  then show ?thesis by (simp add: unat_div)
qed

lemma sd_plus1_ne0: "(x::u32) div 30000000 + 1 \<noteq> 0"
proof
  assume "x div 30000000 + 1 = 0"
  then have "unat (x div 30000000 + 1) = 0" by simp
  moreover have "unat (x div 30000000) + unat (1::u32) < 2 ^ LENGTH(32)"
    using seconds_delta_le[of x] by simp
  then have "unat (x div 30000000 + 1) = unat (x div 30000000) + unat (1::u32)"
    by (simp only: unat_add_lem)
  ultimately show False by simp
qed

lemma sd_plus1_unat: "unat ((x::u32) div 30000000 + 1) = unat (x div 30000000) + 1"
proof -
  have "unat (x div 30000000) + unat (1::u32) < 2 ^ LENGTH(32)"
    using seconds_delta_le[of x] by simp
  then have "unat (x div 30000000 + 1) = unat (x div 30000000) + unat (1::u32)"
    by (simp only: unat_add_lem)
  then show ?thesis by simp
qed

lemma sd_mult_ne0:
  assumes "unat (ft::u16) \<le> 720" "ft \<noteq> 0"
  shows "unat (((x::u32) div 30000000 + 1) * ucast ft) \<noteq> 0"
proof -
  have u: "unat (ucast ft :: u32) = unat ft"
    using unsigned_less[of ft, where 'a=nat] by (simp add: unsigned_ucast_eq take_bit_nat_eq_self)
  have k: "0 < unat ft" using assms(2) by (simp add: unat_gt_0)
  have "(unat (x div 30000000) + 1) * unat ft \<le> 144 * 720"
    using seconds_delta_le[of x] assms(1) by (intro mult_mono) auto
  then have "unat (x div 30000000 + 1) * unat (ucast ft :: u32) < 2 ^ LENGTH(32)"
    by (simp add: sd_plus1_unat u)
  then have "unat ((x div 30000000 + 1) * ucast ft) = unat (x div 30000000 + 1) * unat (ucast ft :: u32)"
    by (simp only: unat_mult_lem)
  then show ?thesis using k by (simp add: sd_plus1_unat u)
qed

lemma filter_time_facts:
  assumes "m \<le> 3"
  shows "unat (mode_to_tc m div 10) \<le> 720 \<and> mode_to_tc m div 10 \<noteq> 0"
  using mode_cases[OF assms] by (auto simp add: mode_to_tc_simps)

lemma sd_ft_ne0:
  assumes "m \<le> 3"
  shows "((x::u32) div 30000000 + 1) * ucast (mode_to_tc m div 10) \<noteq> 0"
    and "mode_to_tc m div 10 \<noteq> 0"
proof -
  from filter_time_facts[OF assms] have a: "unat (mode_to_tc m div 10) \<le> 720"
    and b: "mode_to_tc m div 10 \<noteq> 0" by blast+
  have "unat (((x::u32) div 30000000 + 1) * ucast (mode_to_tc m div 10)) \<noteq> 0"
    using a b by (rule sd_mult_ne0)
  then show "((x::u32) div 30000000 + 1) * ucast (mode_to_tc m div 10) \<noteq> 0"
    by (simp add: unat_eq_zero)
  show "mode_to_tc m div 10 \<noteq> 0" by (rule b)
qed

lemma reset_pll_shared:
  "reset_pll s = Some s' \<Longrightarrow> shared s' = shared s"
  by (auto simp add: reset_pll_def shared_def fdiv_def split: if_splits bind_splits)

lemma downgrade_mode_shared:
  "downgrade_mode s = Some s' \<Longrightarrow> shared s' = shared s"
  by (auto simp add: downgrade_mode_def shared_def fdiv_def Let_def split: if_splits bind_splits)

lemma shared_upd [simp]:
  "shared (s\<lparr>last_gps_locked := a\<rparr>) = shared s"
  "shared (s\<lparr>last_osc_locked := b\<rparr>) = shared s"
  "shared (writeDacValue v nv s) = shared s"
  by (simp_all add: shared_def)

lemma gps_edge_shared:
  "gps_edge s = Some s' \<Longrightarrow> shared s' = shared s"
  by (auto simp add: gps_edge_def Let_def split: if_splits dest!: downgrade_mode_shared)

lemma osc_edge_shared:
  "osc_edge hw s = Some s' \<Longrightarrow> shared s' = shared s"
  by (auto simp add: osc_edge_def Let_def split: if_splits dest!: reset_pll_shared)

lemma button_leds_shared: "shared (button hw (leds hw s)) = shared s"
  by (simp add: shared_def button_def leds_def Let_def)

lemma downgrade_mode_Some:
  assumes "mode s \<le> 3" "mode s \<noteq> 0"
  shows "\<exists>s'. downgrade_mode s = Some s' \<and> mode s' = mode s - 1 \<and> mode s' \<le> 3
           \<and> gps_locked s' = gps_locked s \<and> last_osc_locked s' = last_osc_locked s"
  using mode_cases[OF assms(1)] assms(2)
  by (auto simp add: downgrade_mode_eq)

lemma gps_edge_Some:
  assumes "mode s \<le> 3"
  shows "\<exists>s'. gps_edge s = Some s' \<and> mode s' \<le> 3
           \<and> (mode s' = mode s \<or> (mode s' = mode s - 1 \<and> gps_locked s = 0))
           \<and> (gps_locked s \<noteq> 0 \<longrightarrow> ctl s' = ctl s)
           \<and> gps_locked s' = gps_locked s \<and> last_osc_locked s' = last_osc_locked s"
proof (cases "gps_locked s \<noteq> last_gps_locked s \<and> gps_locked s = 0 \<and> mode s > 0")
  case True
  then have "mode s \<noteq> 0" by auto
  from downgrade_mode_Some[of "s\<lparr>last_gps_locked := gps_locked s\<rparr>"] assms this True
  show ?thesis by (auto simp add: gps_edge_def Let_def)
next
  case False
  then show ?thesis using assms by (auto simp add: gps_edge_def Let_def ctl_def)
qed

lemma osc_edge_Some:
  assumes "mode s \<le> 3"
  shows "\<exists>s'. osc_edge hw s = Some s' \<and> gps_locked s' = gps_locked s
           \<and> (ctl s' = ctl s \<or>
               (\<not> osc_locked hw \<and> mode s' = 0 \<and> iTerm s' = 0 \<and> average_phase_error s' = 0
                \<and> average_pps_error s' = 0 \<and> exit_timer s' = 0))"
proof (cases "(if osc_locked hw then 1 else 0) \<noteq> last_osc_locked s \<and> \<not> osc_locked hw")
  case True
  let ?s1 = "writeDacValue 0 False (s\<lparr>last_osc_locked := 0\<rparr>)"
  have "mode ?s1 \<le> 3" using assms by simp
  from reset_pll_Some[OF this] obtain s' where "reset_pll ?s1 = Some s'" "mode s' = 0" "iTerm s' = 0"
    "average_phase_error s' = 0" "average_pps_error s' = 0" "exit_timer s' = 0" "gps_locked s' = gps_locked ?s1"
    by blast
  then show ?thesis using True by (auto simp add: osc_edge_def Let_def)
next
  case False
  then show ?thesis by (auto simp add: osc_edge_def Let_def ctl_def)
qed

lemma ctl_latch_upd [simp]:
  "ctl (s\<lparr>pps_err_buf := x\<rparr>) = ctl s" "ctl (s\<lparr>last_pps_count := y\<rparr>) = ctl s"
  by (simp_all add: ctl_def)

text \<open>The state that a pass hands on.\<close>

lemma fetch_Some:
  assumes "mode s \<le> 3"
  shows "(\<exists>s'. fetch hw s = Some (Skip s') \<and> mode_step s s')
       \<or> (\<exists>s'. fetch hw s = Some (Observe (pps_err_buf s) s') \<and> ctl s' = ctl s
              \<and> pps_err_buf s \<noteq> [] \<and> pps_err_buf s' = []
              \<and> irq_adc_value s' = irq_adc_value s \<and> irq_time_span s' = irq_time_span s)"
proof -
  from gps_edge_Some[OF assms] obtain s1 where g: "gps_edge s = Some s1" and m1: "mode s1 \<le> 3"
    and c1: "mode s1 = mode s \<or> (mode s1 = mode s - 1 \<and> gps_locked s = 0)"
    and k1: "gps_locked s \<noteq> 0 \<longrightarrow> ctl s1 = ctl s" and gl1: "gps_locked s1 = gps_locked s"
    by blast
  from osc_edge_Some[OF m1, of hw] obtain s2 where o: "osc_edge hw s1 = Some s2"
    and gl2: "gps_locked s2 = gps_locked s1"
    and c2: "ctl s2 = ctl s1 \<or>
               (\<not> osc_locked hw \<and> mode s2 = 0 \<and> iTerm s2 = 0 \<and> average_phase_error s2 = 0
                \<and> average_pps_error s2 = 0 \<and> exit_timer s2 = 0)"
    by blast
  have ms2: "mode_step s s2" using c1 c2 m1 by (auto simp add: mode_step_def ctl_def)
  define s3 where "s3 = button hw (leds hw s2)"
  have c3: "ctl s3 = ctl s2" by (simp add: s3_def ctl_button_leds)
  have ms3: "mode_step s s3" using ms2 c3 by (auto simp add: mode_step_def ctl_def)
  have sh: "shared s3 = shared s"
    using gps_edge_shared[OF g] osc_edge_shared[OF o] by (simp add: s3_def button_leds_shared)
  have f: "fetch hw s =
      (if osc_locked hw \<and> on_rc32m hw then Some (Skip s2)
       else if last_pps_count s3 = pps_count s3 then Some (Skip s3)
       else if pps_err_buf s3 = [] then Some (Skip s3)
       else if gps_locked s2 = 0 \<or> \<not> osc_locked hw
         then Some (Skip (s3\<lparr>last_pps_count := pps_count s3, pps_err_buf := []\<rparr>))
         else Some (Observe (pps_err_buf s3) (s3\<lparr>last_pps_count := pps_count s3, pps_err_buf := []\<rparr>)))"
    by (simp add: fetch_def g o Let_def s3_def)
  have ms4: "mode_step s (s3\<lparr>last_pps_count := pps_count s3, pps_err_buf := []\<rparr>)"
    using ms3 by (simp add: mode_step_def)
  show ?thesis
  proof (cases "\<not> (osc_locked hw \<and> on_rc32m hw) \<and> last_pps_count s3 \<noteq> pps_count s3
                 \<and> pps_err_buf s3 \<noteq> [] \<and> gps_locked s2 \<noteq> 0 \<and> osc_locked hw")
    case True
    have "gps_locked s \<noteq> 0" using True gl1 gl2 by simp
    then have "ctl s1 = ctl s" using k1 by simp
    moreover have "ctl s2 = ctl s1" using c2 True by auto
    ultimately have "ctl s3 = ctl s" using c3 by simp
    then show ?thesis using True f sh by (auto simp add: shared_def)
  next
    case False
    then show ?thesis using f ms2 ms3 ms4 by auto
  qed
qed

lemma update_filters_Some:
  assumes "m \<le> 3"
  shows "\<exists>s1. update_filters (mode_to_tc m) cpe icd (x div 30000000) s = Some s1
           \<and> mode s1 = mode s \<and> iTerm s1 = iTerm s \<and> trim_value s1 = trim_value s
           \<and> exit_timer s1 = exit_timer s \<and> enter_timer s1 = enter_timer s"
  using sd_ft_ne0[OF assms]
  by (simp add: update_filters_def fdiv_def Let_def unsigned_eq_0_iff)

lemma start_mode_mode:
  "mode s = 0 \<Longrightarrow> mode (start_mode s) = 0 \<or> mode (start_mode s) = 1"
  by (simp add: start_mode_def Let_def)

lemma mode_pos_cases: "m \<le> 3 \<Longrightarrow> m \<noteq> 0 \<Longrightarrow> m = 1 \<or> m = 2 \<or> m = (3::u8)"
  using mode_cases[of m] by blast

lemma upgrade_check_Some:
  assumes "mode s \<le> 3" "mode s \<noteq> 0"
  shows "\<exists>tc' s'. upgrade_check tc s = Some (tc', s')
           \<and> (mode s' = mode s \<or> (mode s' = mode s + 1 \<and> \<bar>average_phase_error s\<bar> \<le> 5))
           \<and> mode s' \<le> 3 \<and> mode s' \<noteq> 0
           \<and> average_phase_error s' = average_phase_error s
           \<and> (tc = mode_to_tc (mode s) \<longrightarrow> tc' = mode_to_tc (mode s'))"
  using mode_pos_cases[OF assms]
  by (auto simp add: upgrade_check_def Let_def fdiv_def tc_real_simps mode_to_tc_simps)

lemma downgrade_check_Some:
  assumes "mode s \<le> 3" "mode s \<noteq> 0"
  shows "\<exists>tc' s'. downgrade_check tc s = Some (tc', s')
           \<and> (mode s' = mode s \<or>
                (mode s' = mode s - 1 \<and> \<bar>average_phase_error s\<bar> \<ge> 50 * real (unat (mode s))))
           \<and> mode s' \<le> 3 \<and> mode s' \<noteq> 0
           \<and> (tc = mode_to_tc (mode s) \<longrightarrow> tc' = mode_to_tc (mode s'))"
  using mode_pos_cases[OF assms]
  by (auto simp add: downgrade_check_def downgrade_mode_eq Let_def mode_to_tc_simps)

lemma pi_update_Some:
  assumes "tc \<noteq> 0"
  shows "\<exists>s'. pi_update tc s = Some s' \<and> mode s' = mode s"
proof -
  have "real (unat tc) \<noteq> 0" using assms by (simp add: unsigned_eq_0_iff)
  then show ?thesis
    by (simp add: pi_update_def pi_accumulate_def fdiv_def Let_def offload_def)
qed

lemma mode_step_refl: "mode s \<le> 3 \<Longrightarrow> mode_step s s"
  by (simp add: mode_step_def)

lemma discipline_Some:
  assumes m: "mode s \<le> 3"
  shows "\<exists>s'. discipline pps_err s = Some s' \<and> mode_step s s'"
proof -
  define d where "d = irq_time_span s - 30000000"
  define sd where "sd = (d + 30000000 div 2) div 30000000"
  define icd where "icd = d - sd * 30000000"
  define cpe where "cpe = signed_drop_bit 1 (1024 - irq_adc_value s) + to_int (15 / 10 * pps_err + 5 / 10)"
  have sd1: "sd + 1 \<noteq> 0" unfolding sd_def by (rule sd_plus1_ne0)
  from update_filters_Some[OF m, of cpe icd "d + 30000000 div 2" s] obtain s1 where
    uf: "update_filters (mode_to_tc (mode s)) cpe icd sd s = Some s1" and m1: "mode s1 = mode s"
    unfolding sd_def by blast
  have unfold: "discipline pps_err s =
      (if labs icd div (sd + 1) > 3000 then Some s
       else if mode s1 = 0 then Some (start_mode s1)
       else if \<bar>average_pps_error s1\<bar> \<ge> 5 / 10 then reset_pll s1
       else do {
         (tc1, s2) \<leftarrow> upgrade_check (mode_to_tc (mode s)) s1;
         (tc2, s3) \<leftarrow> downgrade_check tc1 s2;
         pi_update tc2 s3
       })"
    unfolding discipline_def Let_def d_def[symmetric] sd_def[symmetric]
        icd_def[symmetric] cpe_def[symmetric]
    using sd1 uf by (simp add: udiv_def)
  consider (bad) "labs icd div (sd + 1) > 3000"
    | (start) "\<not> labs icd div (sd + 1) > 3000" "mode s1 = 0"
    | (reset) "\<not> labs icd div (sd + 1) > 3000" "mode s1 \<noteq> 0" "\<bar>average_pps_error s1\<bar> \<ge> 5 / 10"
    | (pll) "\<not> labs icd div (sd + 1) > 3000" "mode s1 \<noteq> 0" "\<not> \<bar>average_pps_error s1\<bar> \<ge> 5 / 10"
    by blast
  then show ?thesis
  proof cases
    case bad
    then show ?thesis using unfold m by (simp add: mode_step_refl)
  next
    case start
    then show ?thesis using unfold m1 start_mode_mode[of s1]
      by (auto simp add: mode_step_def)
  next
    case reset
    from reset_pll_Some[of s1] m m1 obtain s' where "reset_pll s1 = Some s'" "mode s' = 0" "iTerm s' = 0"
      "average_phase_error s' = 0" "average_pps_error s' = 0" "exit_timer s' = 0"
      by auto
    then show ?thesis using unfold reset by (simp add: mode_step_def)
  next
    case pll
    have m1': "mode s1 \<le> 3" using m m1 by simp
    from upgrade_check_Some[OF m1' pll(2), of "mode_to_tc (mode s)"] m1 obtain tc1 s2 where
      up: "upgrade_check (mode_to_tc (mode s)) s1 = Some (tc1, s2)"
      and um: "mode s2 = mode s1 \<or> (mode s2 = mode s1 + 1 \<and> \<bar>average_phase_error s1\<bar> \<le> 5)"
      and m2: "mode s2 \<le> 3" "mode s2 \<noteq> 0"
      and a2: "average_phase_error s2 = average_phase_error s1"
      and t1: "tc1 = mode_to_tc (mode s2)"
      by auto
    from downgrade_check_Some[OF m2, of tc1] t1 obtain tc2 s3 where
      dn: "downgrade_check tc1 s2 = Some (tc2, s3)"
      and dm: "mode s3 = mode s2 \<or>
                (mode s3 = mode s2 - 1 \<and> \<bar>average_phase_error s2\<bar> \<ge> 50 * real (unat (mode s2)))"
      and m3: "mode s3 \<le> 3" "mode s3 \<noteq> 0"
      and t2: "tc2 = mode_to_tc (mode s3)"
      by auto
    have "tc2 \<noteq> 0" using t2 m3 by (simp add: mode_to_tc_ne0)
    from pi_update_Some[OF this, of s3] obtain s' where pi: "pi_update tc2 s3 = Some s'"
      and m4: "mode s' = mode s3" by blast
    have big: "50 * real (unat (mode s2)) \<ge> 50"
      using mode_pos_cases[OF m2] by auto
    have "mode s3 = mode s1 \<or> mode s3 = mode s1 + 1 \<or> mode s3 = mode s1 - 1"
      using um dm a2 big by auto
    then have "mode_step s s'" using m1 m3 m4 by (auto simp add: mode_step_def)
    moreover have "discipline pps_err s = Some s'"
      using unfold pll up dn pi by simp
    ultimately show ?thesis by blast
  qed
qed

lemma main_loop_Some:
  assumes "mode s \<le> 3"
  shows "\<exists>s'. main_loop atof hw s = Some s' \<and> mode_step s s'"
proof -
  from fetch_Some[OF assms, of hw] show ?thesis
  proof
    assume "\<exists>s'. fetch hw s = Some (Skip s') \<and> mode_step s s'"
    then show ?thesis by (auto simp add: main_loop_def)
  next
    assume "\<exists>s'. fetch hw s = Some (Observe (pps_err_buf s) s') \<and> ctl s' = ctl s
              \<and> pps_err_buf s \<noteq> [] \<and> pps_err_buf s' = []
              \<and> irq_adc_value s' = irq_adc_value s \<and> irq_time_span s' = irq_time_span s"
    then obtain s1 where f: "fetch hw s = Some (Observe (pps_err_buf s) s1)" and c: "ctl s1 = ctl s"
      by blast
    have m1: "mode s1 \<le> 3" "mode s1 = mode s" using c assms by (simp_all add: ctl_def)
    from discipline_Some[OF m1(1), of "atof (pps_err_buf s)"] obtain s' where
      d: "discipline (atof (pps_err_buf s)) s1 = Some s'" and ms: "mode_step s1 s'" by blast
    have "mode_step s s'" using ms m1(2) by (simp add: mode_step_def)
    then show ?thesis using f d by (auto simp add: main_loop_def)
  qed
qed

lemma handleGPS_ctl:
  assumes "handleGPS s = Some s'"
  shows "ctl s' = ctl s"
proof -
  have "\<And>f. ctl (s\<lparr>time_buf := f\<rparr>) = ctl s" "\<And>f g. ctl (s\<lparr>time_buf := f, date_buf := g\<rparr>) = ctl s"
    "\<And>f. ctl (s\<lparr>gps_locked := f\<rparr>) = ctl s" "\<And>f g. ctl (s\<lparr>gps_locked := f, pdop_buf := g\<rparr>) = ctl s"
    "\<And>f. ctl (s\<lparr>pps_err_buf := f\<rparr>) = ctl s"
    by (simp_all add: ctl_def)
  then show ?thesis using assms
    unfolding handleGPS_def Let_def
    by (auto split: if_splits option.splits prod.splits simp del: skip_commas.simps)
qed

lemma rxc_ctl:
  assumes "USARTC0_RXC_vect c s = Some s'"
  shows "ctl s' = ctl s"
  using assms handleGPS_ctl[of s]
  by (auto simp add: USARTC0_RXC_vect_def ctl_def split: if_splits)

lemma pps_ctl: "ctl (TCC5_CCA_vect t a s) = ctl s"
  by (simp add: TCC5_CCA_vect_def ctl_def)

lemma step_mode_step:
  assumes "mode s \<le> 3" "step atof e s = Some s'"
  shows "mode_step s s'"
proof (cases e)
  case (PPS t a)
  then show ?thesis using assms pps_ctl[of t a s] by (auto simp add: mode_step_def ctl_def)
next
  case (RX c)
  then show ?thesis using assms rxc_ctl[of c s s'] by (auto simp add: mode_step_def ctl_def)
next
  case (LOOP hw)
  then show ?thesis using assms main_loop_Some[OF assms(1), of atof hw] by auto
qed

lemma reachable_mode:
  assumes "reachable atof s"
  shows "mode s \<le> 3"
  using assms
proof (induction rule: reachable.induct)
  case reachable_boot
  then show ?case by (simp add: boot_def)
next
  case (reachable_step s e s')
  from step_mode_step[OF reachable_step.IH reachable_step.hyps(2)] show ?case
    by (simp add: mode_step_def)
qed

subsection \<open>Running lines of the receiver\<close>

lemma run_append:
  "run atof (xs @ ys) s = (case run atof xs s of None \<Rightarrow> None | Some s' \<Rightarrow> run atof ys s')"
  by (induction xs arbitrary: s) (auto split: option.splits)

lemma run_rx_chars:
  assumes "\<forall>c\<in>set cs. c \<noteq> CHR 0x0D \<and> c \<noteq> CHR 0x0A"
    and "rx_buf s \<noteq> [] \<or> cs = [] \<or> hd cs = CHR ''$''"
    and "length (rx_buf s) + length cs < 95"
  shows "run atof (map RX cs) s = Some (s\<lparr>rx_buf := rx_buf s @ cs\<rparr>)"
  using assms
proof (induction cs arbitrary: s)
  case Nil
  then show ?case by simp
next
  case (Cons c cs)
  have st: "USARTC0_RXC_vect c s = Some (s\<lparr>rx_buf := rx_buf s @ [c]\<rparr>)"
    using Cons.prems by (auto simp add: USARTC0_RXC_vect_def)
  have "run atof (map RX cs) (s\<lparr>rx_buf := rx_buf s @ [c]\<rparr>)
          = Some (s\<lparr>rx_buf := rx_buf s @ [c]\<rparr>\<lparr>rx_buf := rx_buf (s\<lparr>rx_buf := rx_buf s @ [c]\<rparr>) @ cs\<rparr>)"
    using Cons.prems by (intro Cons.IH) auto
  then show ?case using st by simp
qed

lemma run_rx_line:
  assumes "\<forall>c\<in>set line. c \<noteq> CHR 0x0D \<and> c \<noteq> CHR 0x0A"
    and "hd line = CHR ''$''" and "line \<noteq> []" and "length line < 95" and "rx_buf s = []"
  shows "run atof (map RX (line @ [CHR 0x0D])) s
           = map_option (\<lambda>t. t\<lparr>rx_buf := []\<rparr>) (handleGPS (s\<lparr>rx_buf := line\<rparr>))"
proof -
  have "run atof (map RX line) s = Some (s\<lparr>rx_buf := rx_buf s @ line\<rparr>)"
    using assms by (intro run_rx_chars) auto
  then have "run atof (map RX line) s = Some (s\<lparr>rx_buf := line\<rparr>)" using assms(5) by simp
  moreover have "USARTC0_RXC_vect (CHR 0x0D) (s\<lparr>rx_buf := line\<rparr>)
       = map_option (\<lambda>t. t\<lparr>rx_buf := []\<rparr>) (handleGPS (s\<lparr>rx_buf := line\<rparr>))"
    using assms(3) by (simp add: USARTC0_RXC_vect_def)
  ultimately show ?thesis by (simp add: run_append split: option.splits)
qed

lemma line_facts:
  "\<forall>c\<in>set qe_zero_line. c \<noteq> CHR 0x0D \<and> c \<noteq> CHR 0x0A" "hd qe_zero_line = CHR ''$''"
  "qe_zero_line \<noteq> []" "length qe_zero_line < 95"
  "\<forall>c\<in>set qe_empty_line. c \<noteq> CHR 0x0D \<and> c \<noteq> CHR 0x0A" "hd qe_empty_line = CHR ''$''"
  "qe_empty_line \<noteq> []" "length qe_empty_line < 95"
  "\<forall>c\<in>set gsa_fix_line. c \<noteq> CHR 0x0D \<and> c \<noteq> CHR 0x0A" "hd gsa_fix_line = CHR ''$''"
  "gsa_fix_line \<noteq> []" "length gsa_fix_line < 95"
  by (simp_all add: qe_zero_line_def qe_empty_line_def gsa_fix_line_def)

lemma handleGPS_qe_zero:
  assumes "rx_buf s = qe_zero_line"
  shows "handleGPS s = Some (s\<lparr>pps_err_buf := ''0.0''\<rparr>)"
proof -
  have a: "\<not> length qe_zero_line < 9" "\<not> length qe_zero_line - 3 < star_index qe_zero_line"
    "sent_checksum qe_zero_line = nmea_checksum qe_zero_line"
    by code_simp+
  have b: "take 6 qe_zero_line \<noteq> ''$GPRMC''" "take 6 qe_zero_line \<noteq> ''$GPGSA''"
    "take 8 qe_zero_line = ''$PSTI,00''"
    by code_simp+
  have c: "skip_commas (cstr qe_zero_line) 4 = Some ''0.0,,*32''" 
    "copy_field ''0.0,,*32'' 4 = Some ''0.0''"
    by code_simp+
  show ?thesis
    using a b c assms handleGPS_body[of s]
    by (simp add: Let_def del: skip_commas.simps)
qed

lemma handleGPS_qe_empty:
  assumes "rx_buf s = qe_empty_line"
  shows "handleGPS s = Some (s\<lparr>pps_err_buf := []\<rparr>)"
proof -
  have a: "\<not> length qe_empty_line < 9" "\<not> length qe_empty_line - 3 < star_index qe_empty_line"
    "sent_checksum qe_empty_line = nmea_checksum qe_empty_line"
    by code_simp+
  have b: "take 6 qe_empty_line \<noteq> ''$GPRMC''" "take 6 qe_empty_line \<noteq> ''$GPGSA''"
    "take 8 qe_empty_line = ''$PSTI,00''"
    by code_simp+
  have c: "skip_commas (cstr qe_empty_line) 4 = Some '',,*1C''" 
    "copy_field '',,*1C'' 4 = Some []"
    by code_simp+
  show ?thesis
    using a b c assms handleGPS_body[of s]
    by (simp add: Let_def del: skip_commas.simps)
qed

lemma handleGPS_gsa_fix:
  assumes "rx_buf s = gsa_fix_line"
  shows "handleGPS s = Some (s\<lparr>gps_locked := 1, pdop_buf := ''1.61''\<rparr>)"
proof -
  have a: "\<not> length gsa_fix_line < 9" "\<not> length gsa_fix_line - 3 < star_index gsa_fix_line"
    "sent_checksum gsa_fix_line = nmea_checksum gsa_fix_line"
    by code_simp+
  have b: "take 6 gsa_fix_line \<noteq> ''$GPRMC''" "take 6 gsa_fix_line = ''$GPGSA''"
    by code_simp+
  have c: "skip_commas (cstr gsa_fix_line) 2 = Some ''3,02,06,12,24,25,29,,,,,,,1.61,1.33,0.90*01''" 
    "skip_commas ''3,02,06,12,24,25,29,,,,,,,1.61,1.33,0.90*01'' 13 = Some ''1.61,1.33,0.90*01''"
    "copy_field ''1.61,1.33,0.90*01'' 4 = Some ''1.61''"
    "deref ''3,02,06,12,24,25,29,,,,,,,1.61,1.33,0.90*01'' = CHR ''3''"
    by code_simp+
  show ?thesis
    using a b c assms handleGPS_body[of s]
    by (simp add: Let_def del: skip_commas.simps)
qed

lemma rx_qe_zero:
  assumes "rx_buf s = []"
  shows "run atof (map RX (qe_zero_line @ [CHR 0x0D])) s = Some (s\<lparr>pps_err_buf := ''0.0''\<rparr>)"
  using run_rx_line[OF line_facts(1-4) assms, of atof] assms
    handleGPS_qe_zero[of "s\<lparr>rx_buf := qe_zero_line\<rparr>"]
  by simp

lemma rx_qe_empty:
  assumes "rx_buf s = []"
  shows "run atof (map RX (qe_empty_line @ [CHR 0x0D])) s = Some (s\<lparr>pps_err_buf := []\<rparr>)"
  using run_rx_line[OF line_facts(5-8) assms, of atof] assms
    handleGPS_qe_empty[of "s\<lparr>rx_buf := qe_empty_line\<rparr>"]
  by simp

lemma rx_gsa_fix:
  assumes "rx_buf s = []"
  shows "run atof (map RX (gsa_fix_line @ [CHR 0x0D])) s = Some (s\<lparr>gps_locked := 1, pdop_buf := ''1.61''\<rparr>)"
  using run_rx_line[OF line_facts(9-12) assms, of atof] assms
    handleGPS_gsa_fix[of "s\<lparr>rx_buf := gsa_fix_line\<rparr>"]
  by simp

subsection \<open>Nominal seconds\<close>

lemma trunc_simps: "trunc (5 / 10) = 0" "trunc (1 / 2) = 0" "trunc 0 = 0"
  by (simp_all add: trunc_def)

lemma u16_succ:
  assumes "unat (w::u16) < 1000"
  shows "unat (w + 1) = Suc (unat w)"
proof -
  have "unat w + unat (1::u16) < 2 ^ LENGTH(16)" using assms by simp
  then have "unat (w + 1) = unat w + unat (1::u16)" by (simp only: unat_add_lem)
  then show ?thesis by simp
qed

lemma pass_start:
  assumes t: "tracking (s\<lparr>last_pps_count := pps_count s\<rparr>)" and m: "mode s = 0"
    and new: "last_pps_count s \<noteq> pps_count s"
    and q: "pps_err_buf s \<noteq> []" "atof (pps_err_buf s) = 0"
    and cap: "irq_time_span s = F_CPU" "irq_adc_value s = PHASE_ADC_MIDPOINT"
    and et: "unat (exit_timer s) < 60"
  shows "\<exists>s'. main_loop atof hw_ok s = Some s' \<and> tracking s' \<and> pps_err_buf s' = []
           \<and> iTerm s' = iTerm s \<and> trim_value s' = trim_value s \<and> enter_timer s' = enter_timer s
           \<and> last_timer_val s' = last_timer_val s
           \<and> (if unat (exit_timer s) < 59
               then mode s' = 0 \<and> unat (exit_timer s') = Suc (unat (exit_timer s))
               else mode s' = 1 \<and> exit_timer s' = 0)"
proof -
  let ?s1 = "s\<lparr>last_pps_count := pps_count s, pps_err_buf := []\<rparr>"
  have f: "fetch hw_ok s = Some (Observe (pps_err_buf s) ?s1)"
    using t new q(1) by (simp add: fetch_def gps_edge_def osc_edge_def hw_ok_def tracking_def
        button_def leds_def Let_def)
  let ?s2 = "?s1\<lparr>average_phase_error := 0, average_pps_error := 0\<rparr>"
  have uf: "update_filters 100 0 0 0 ?s1 = Some ?s2"
    using t by (simp add: update_filters_def fdiv_def Let_def tracking_def of_long_def)
  have cpe: "signed_drop_bit 1 (0::u16) + to_int (15 / 10 * 0 + 5 / 10) = 0"
    by (simp add: to_int_def trunc_simps)
  have d: "discipline 0 ?s1 = Some (start_mode ?s2)"
    using m cap uf cpe
    by (simp add: discipline_def Let_def udiv_def labs_def mode_to_tc_simps)
  have e1: "unat (exit_timer s + 1) = Suc (unat (exit_timer s))"
    using et by (intro u16_succ) simp
  have ge: "(60 \<le> exit_timer s + 1) = (59 \<le> unat (exit_timer s))"
    "(600 \<le> exit_timer s + 1) = False"
    using et e1 by (simp_all add: word_le_nat_alt)
  have sm: "start_mode ?s2 =
      (let s2 = writeDacValue (to_long (trim_value s)) False ?s2 in
       if 59 \<le> unat (exit_timer s) then s2\<lparr>exit_timer := exit_timer s + 1\<rparr>\<lparr>mode := 1, exit_timer := 0\<rparr>
       else s2\<lparr>exit_timer := exit_timer s + 1\<rparr>)"
    using t by (simp add: start_mode_def Let_def tracking_def ge)
  have ml: "main_loop atof hw_ok s = Some (start_mode ?s2)"
    using f d q(2) by (simp add: main_loop_def)
  show ?thesis
    unfolding ml sm using t e1 et m
    by (auto simp add: Let_def tracking_def writeDacValue_def)
qed

lemma reachable_run:
  assumes "reachable atof s" "run atof evs s = Some s'"
  shows "reachable atof s'"
  using assms
proof (induction evs arbitrary: s)
  case Nil
  then show ?case by simp
next
  case (Cons e evs)
  from Cons.prems(2) obtain s1 where s1: "step atof e s = Some s1" and r: "run atof evs s1 = Some s'"
    by (auto split: option.splits)
  have "reachable atof s1" using Cons.prems(1) s1 by (rule reachable_step)
  then show ?case using r by (rule Cons.IH)
qed

lemma reachable_seconds:
  assumes "reachable atof s" "seconds atof hw adc line n s = Some s'"
  shows "reachable atof s'"
  using assms(2)
proof (induction n arbitrary: s')
  case 0
  then show ?case using assms(1) by simp
next
  case (Suc n)
  from Suc.prems obtain s1 where s1: "seconds atof hw adc line n s = Some s1"
    and r: "run atof (second_events (last_timer_val s1 + F_CPU) adc line hw) s1 = Some s'"
    by (auto split: option.splits)
  from Suc.IH[OF s1] r show ?case by (rule reachable_run)
qed

lemma boot_to_locked_start:
  "run atof (map RX (gsa_fix_line @ [CHR 0x0D]) @ [LOOP hw_ok]) boot = Some locked_start"
proof -
  have "rx_buf boot = []" by (simp add: boot_def)
  from rx_gsa_fix[OF this, of atof]
  have 1: "run atof (map RX (gsa_fix_line @ [CHR 0x0D])) boot = Some (boot\<lparr>gps_locked := 1, pdop_buf := ''1.61''\<rparr>)" .
  have 2: "main_loop atof hw_ok (boot\<lparr>gps_locked := 1, pdop_buf := ''1.61''\<rparr>) = Some locked_start"
    by (simp add: main_loop_def fetch_def gps_edge_def osc_edge_def hw_ok_def boot_def
        button_def leds_def Let_def locked_start_def)
  show ?thesis unfolding run_append 1 using 2 by simp
qed

lemma reachable_locked_start: "reachable atof locked_start"
  using reachable_run[OF reachable_boot boot_to_locked_start] .

lemma tracking_locked_start:
  "tracking locked_start" "mode locked_start = 0" "exit_timer locked_start = 0"
  "iTerm locked_start = 0" "enter_timer locked_start = 0"
  by (simp_all add: locked_start_def boot_def tracking_def)

lemma second_start:
  assumes t: "tracking s" and m: "mode s = 0" and z: "atof ''0.0'' = 0"
    and et: "unat (exit_timer s) < 60"
  shows "\<exists>s'. run atof (second_events (last_timer_val s + F_CPU) PHASE_ADC_MIDPOINT qe_zero_line hw_ok) s = Some s'
           \<and> tracking s' \<and> pps_err_buf s' = []
           \<and> iTerm s' = iTerm s \<and> trim_value s' = trim_value s \<and> enter_timer s' = enter_timer s
           \<and> (if unat (exit_timer s) < 59
               then mode s' = 0 \<and> unat (exit_timer s') = Suc (unat (exit_timer s))
               else mode s' = 1 \<and> exit_timer s' = 0)"
proof -
  let ?p = "TCC5_CCA_vect (last_timer_val s + F_CPU) PHASE_ADC_MIDPOINT s"
  let ?r = "?p\<lparr>pps_err_buf := ''0.0''\<rparr>"
  have rb: "rx_buf ?p = []" using t by (simp add: TCC5_CCA_vect_def tracking_def)
  have rx: "run atof (map RX (qe_zero_line @ [CHR 0x0D])) ?p = Some ?r"
    using rx_qe_zero[OF rb] .
  have a1: "tracking (?r\<lparr>last_pps_count := pps_count ?r\<rparr>)"
    using t by (simp add: tracking_def TCC5_CCA_vect_def)
  have a2: "mode ?r = 0" using m by (simp add: TCC5_CCA_vect_def)
  have a3: "last_pps_count ?r \<noteq> pps_count ?r"
    using t by (simp add: tracking_def TCC5_CCA_vect_def)
  have a4: "pps_err_buf ?r \<noteq> []" "atof (pps_err_buf ?r) = 0" using z by simp_all
  have a5: "irq_time_span ?r = F_CPU" "irq_adc_value ?r = PHASE_ADC_MIDPOINT"
    by (simp_all add: TCC5_CCA_vect_def)
  have a6: "unat (exit_timer ?r) < 60" using et by (simp add: TCC5_CCA_vect_def)
  from pass_start[where atof=atof and s="?r", OF a1 a2 a3 a4 a5 a6] obtain s' where
    ml: "main_loop atof hw_ok ?r = Some s'" and r: "tracking s'" "pps_err_buf s' = []"
    "iTerm s' = iTerm ?r" "trim_value s' = trim_value ?r" "enter_timer s' = enter_timer ?r"
    "if unat (exit_timer ?r) < 59
               then mode s' = 0 \<and> unat (exit_timer s') = Suc (unat (exit_timer ?r))
               else mode s' = 1 \<and> exit_timer s' = 0"
    by blast
  have "run atof (second_events (last_timer_val s + F_CPU) PHASE_ADC_MIDPOINT qe_zero_line hw_ok) s = Some s'"
    unfolding second_events_def run.simps step.simps option.case run_append rx using ml by simp
  then show ?thesis using r by (auto simp add: TCC5_CCA_vect_def)
qed

lemma seconds_start:
  assumes t: "tracking s" and m: "mode s = 0" and z: "atof ''0.0'' = 0"
    and et: "exit_timer s = 0" and n: "n < 60"
  shows "\<exists>s'. seconds atof hw_ok PHASE_ADC_MIDPOINT qe_zero_line n s = Some s'
           \<and> tracking s' \<and> mode s' = 0 \<and> unat (exit_timer s') = n
           \<and> iTerm s' = iTerm s \<and> trim_value s' = trim_value s \<and> enter_timer s' = enter_timer s"
  using n
proof (induction n)
  case 0
  then show ?case using t m et by simp
next
  case (Suc n)
  then obtain s1 where s1: "seconds atof hw_ok PHASE_ADC_MIDPOINT qe_zero_line n s = Some s1"
    and i: "tracking s1" "mode s1 = 0" "unat (exit_timer s1) = n"
    "iTerm s1 = iTerm s" "trim_value s1 = trim_value s" "enter_timer s1 = enter_timer s"
    by auto
  have e: "unat (exit_timer s1) < 60" "unat (exit_timer s1) < 59" using i(3) Suc.prems by simp_all
  from second_start[where atof=atof and s=s1, OF i(1,2) z e(1)] e(2) i obtain s' where
    "run atof (second_events (last_timer_val s1 + F_CPU) PHASE_ADC_MIDPOINT qe_zero_line hw_ok) s1 = Some s'"
    "tracking s'" "mode s' = 0" "unat (exit_timer s') = Suc n"
    "iTerm s' = iTerm s" "trim_value s' = trim_value s" "enter_timer s' = enter_timer s"
    by auto
  then show ?case using s1 by simp
qed

lemma seconds_start_60:
  assumes t: "tracking s" and m: "mode s = 0" and z: "atof ''0.0'' = 0"
    and et: "exit_timer s = 0"
  shows "\<exists>s'. seconds atof hw_ok PHASE_ADC_MIDPOINT qe_zero_line 60 s = Some s'
           \<and> tracking s' \<and> mode s' = 1 \<and> exit_timer s' = 0
           \<and> iTerm s' = iTerm s \<and> trim_value s' = trim_value s \<and> enter_timer s' = enter_timer s"
proof -
  from seconds_start[where atof=atof and s=s and n=59, OF t m z et] obtain s1 where
    s1: "seconds atof hw_ok PHASE_ADC_MIDPOINT qe_zero_line 59 s = Some s1"
    and i: "tracking s1" "mode s1 = 0" "unat (exit_timer s1) = 59"
    "iTerm s1 = iTerm s" "trim_value s1 = trim_value s" "enter_timer s1 = enter_timer s"
    by auto
  have e: "unat (exit_timer s1) < 60" "\<not> unat (exit_timer s1) < 59" using i(3) by simp_all
  from second_start[where atof=atof and s=s1, OF i(1,2) z e(1)] e(2) i obtain s' where
    "run atof (second_events (last_timer_val s1 + F_CPU) PHASE_ADC_MIDPOINT qe_zero_line hw_ok) s1 = Some s'"
    "tracking s'" "mode s' = 1" "exit_timer s' = 0"
    "iTerm s' = iTerm s" "trim_value s' = trim_value s" "enter_timer s' = enter_timer s"
    by auto
  moreover have "seconds atof hw_ok PHASE_ADC_MIDPOINT qe_zero_line 60 s
      = (case seconds atof hw_ok PHASE_ADC_MIDPOINT qe_zero_line 59 s of None \<Rightarrow> None
         | Some s' \<Rightarrow> run atof (second_events (last_timer_val s' + F_CPU) PHASE_ADC_MIDPOINT qe_zero_line hw_ok) s')"
    using seconds.simps(2)[of atof hw_ok PHASE_ADC_MIDPOINT qe_zero_line 59 s]
    by (simp del: seconds.simps)
  ultimately show ?thesis using s1 by (simp del: seconds.simps)
qed

lemma pass_fast:
  assumes t: "tracking (s\<lparr>last_pps_count := pps_count s\<rparr>)" and m: "mode s = 1"
    and i0: "iTerm s = 0" "enter_timer s = 0"
    and new: "last_pps_count s \<noteq> pps_count s"
    and q: "pps_err_buf s \<noteq> []" "atof (pps_err_buf s) = 0"
    and cap: "irq_time_span s = F_CPU" "irq_adc_value s = PHASE_ADC_MIDPOINT"
    and et: "unat (exit_timer s) < 200"
  shows "\<exists>s'. main_loop atof hw_ok s = Some s' \<and> tracking s' \<and> pps_err_buf s' = []
           \<and> iTerm s' = 0 \<and> enter_timer s' = 0
           \<and> (if unat (exit_timer s) < 199
               then mode s' = 1 \<and> unat (exit_timer s') = Suc (unat (exit_timer s))
               else mode s' = 2 \<and> exit_timer s' = 0)"
proof -
  let ?s1 = "s\<lparr>last_pps_count := pps_count s, pps_err_buf := []\<rparr>"
  have f: "fetch hw_ok s = Some (Observe (pps_err_buf s) ?s1)"
    using t new q(1) by (simp add: fetch_def gps_edge_def osc_edge_def hw_ok_def tracking_def
        button_def leds_def Let_def)
  let ?s2 = "?s1\<lparr>average_phase_error := 0, average_pps_error := 0\<rparr>"
  have uf: "update_filters 100 0 0 0 ?s1 = Some ?s2"
    using t by (simp add: update_filters_def fdiv_def Let_def tracking_def of_long_def)
  have cpe: "signed_drop_bit 1 (0::u16) + to_int (15 / 10 * 0 + 5 / 10) = 0"
    by (simp add: to_int_def trunc_simps)
  have d: "discipline 0 ?s1 = do {
         (tc1, s2) \<leftarrow> upgrade_check 100 ?s2;
         (tc2, s3) \<leftarrow> downgrade_check tc1 s2;
         pi_update tc2 s3 }"
    using m cap uf cpe
    by (simp add: discipline_def Let_def udiv_def labs_def mode_to_tc_simps)
  have e1: "unat (exit_timer s + 1) = Suc (unat (exit_timer s))"
    using et by (intro u16_succ) simp
  have ge: "(200 \<le> exit_timer s + 1) = (199 \<le> unat (exit_timer s))"
    using et e1 by (simp_all add: word_le_nat_alt)
  let ?s3 = "?s2\<lparr>exit_timer := exit_timer s + 1\<rparr>"
  let ?s4 = "?s2\<lparr>exit_timer := 0, mode := 2, iTerm := 0\<rparr>"
  have up: "upgrade_check 100 ?s2 = (if 199 \<le> unat (exit_timer s) then Some (1800, ?s4) else Some (100, ?s3))"
    using m i0 by (simp add: upgrade_check_def Let_def ge fdiv_def tc_real_simps mode_to_tc_simps)
  have dn: "downgrade_check 100 ?s3 = Some (100, ?s3)" "downgrade_check 1800 ?s4 = Some (1800, ?s4)"
    using m i0 by (simp_all add: downgrade_check_def)
  have pi: "\<exists>s'. pi_update 100 ?s3 = Some s' \<and> ctl s' = ctl ?s3 \<and> shared s' = shared ?s3
            \<and> tracking s' = tracking ?s3"
    using i0 by (simp add: pi_update_def pi_accumulate_def fdiv_def Let_def offload_def ctl_def
        shared_def tracking_def)
  have pi2: "\<exists>s'. pi_update 1800 ?s4 = Some s' \<and> ctl s' = ctl ?s4 \<and> shared s' = shared ?s4
            \<and> tracking s' = tracking ?s4"
    using i0 by (simp add: pi_update_def pi_accumulate_def fdiv_def Let_def offload_def ctl_def
        shared_def tracking_def)
  have t3: "tracking ?s3" "tracking ?s4" using t by (simp_all add: tracking_def)
  show ?thesis
  proof (cases "199 \<le> unat (exit_timer s)")
    case True
    from pi2 obtain s' where p: "pi_update 1800 ?s4 = Some s'" "ctl s' = ctl ?s4" "shared s' = shared ?s4"
      "tracking s' = tracking ?s4" by blast
    have "main_loop atof hw_ok s = Some s'"
      using f d up dn p(1) q(2) True by (simp add: main_loop_def)
    then show ?thesis using p t3 True i0 by (auto simp add: ctl_def shared_def)
  next
    case False
    from pi obtain s' where p: "pi_update 100 ?s3 = Some s'" "ctl s' = ctl ?s3" "shared s' = shared ?s3"
      "tracking s' = tracking ?s3" by blast
    have "main_loop atof hw_ok s = Some s'"
      using f d up dn p(1) q(2) False by (simp add: main_loop_def)
    then show ?thesis using p t3 False i0 e1 m by (auto simp add: ctl_def shared_def)
  qed
qed

lemma second_fast:
  assumes t: "tracking s" and m: "mode s = 1" and i0: "iTerm s = 0" "enter_timer s = 0"
    and z: "atof ''0.0'' = 0" and et: "unat (exit_timer s) < 200"
  shows "\<exists>s'. run atof (second_events (last_timer_val s + F_CPU) PHASE_ADC_MIDPOINT qe_zero_line hw_ok) s = Some s'
           \<and> tracking s' \<and> pps_err_buf s' = [] \<and> iTerm s' = 0 \<and> enter_timer s' = 0
           \<and> (if unat (exit_timer s) < 199
               then mode s' = 1 \<and> unat (exit_timer s') = Suc (unat (exit_timer s))
               else mode s' = 2 \<and> exit_timer s' = 0)"
proof -
  let ?p = "TCC5_CCA_vect (last_timer_val s + F_CPU) PHASE_ADC_MIDPOINT s"
  let ?r = "?p\<lparr>pps_err_buf := ''0.0''\<rparr>"
  have rb: "rx_buf ?p = []" using t by (simp add: TCC5_CCA_vect_def tracking_def)
  have rx: "run atof (map RX (qe_zero_line @ [CHR 0x0D])) ?p = Some ?r"
    using rx_qe_zero[OF rb] .
  have a1: "tracking (?r\<lparr>last_pps_count := pps_count ?r\<rparr>)"
    using t by (simp add: tracking_def TCC5_CCA_vect_def)
  have a2: "mode ?r = 1" "iTerm ?r = 0" "enter_timer ?r = 0" using m i0 by (simp_all add: TCC5_CCA_vect_def)
  have a3: "last_pps_count ?r \<noteq> pps_count ?r"
    using t by (simp add: tracking_def TCC5_CCA_vect_def)
  have a4: "pps_err_buf ?r \<noteq> []" "atof (pps_err_buf ?r) = 0" using z by simp_all
  have a5: "irq_time_span ?r = F_CPU" "irq_adc_value ?r = PHASE_ADC_MIDPOINT"
    by (simp_all add: TCC5_CCA_vect_def)
  have a6: "unat (exit_timer ?r) < 200" using et by (simp add: TCC5_CCA_vect_def)
  from pass_fast[where atof=atof and s="?r", OF a1 a2 a3 a4 a5 a6] obtain s' where
    ml: "main_loop atof hw_ok ?r = Some s'" and r: "tracking s'" "pps_err_buf s' = []"
    "iTerm s' = 0" "enter_timer s' = 0"
    "if unat (exit_timer ?r) < 199
               then mode s' = 1 \<and> unat (exit_timer s') = Suc (unat (exit_timer ?r))
               else mode s' = 2 \<and> exit_timer s' = 0"
    by blast
  have "run atof (second_events (last_timer_val s + F_CPU) PHASE_ADC_MIDPOINT qe_zero_line hw_ok) s = Some s'"
    unfolding second_events_def run.simps step.simps option.case run_append rx using ml by simp
  then show ?thesis using r by (auto simp add: TCC5_CCA_vect_def)
qed

lemma seconds_fast:
  assumes t: "tracking s" and m: "mode s = 1" and i0: "iTerm s = 0" "enter_timer s = 0"
    and z: "atof ''0.0'' = 0" and et: "exit_timer s = 0" and n: "n < 200"
  shows "\<exists>s'. seconds atof hw_ok PHASE_ADC_MIDPOINT qe_zero_line n s = Some s'
           \<and> tracking s' \<and> mode s' = 1 \<and> unat (exit_timer s') = n \<and> iTerm s' = 0 \<and> enter_timer s' = 0"
  using n
proof (induction n)
  case 0
  then show ?case using t m et i0 by simp
next
  case (Suc n)
  then obtain s1 where s1: "seconds atof hw_ok PHASE_ADC_MIDPOINT qe_zero_line n s = Some s1"
    and i: "tracking s1" "mode s1 = 1" "iTerm s1 = 0" "enter_timer s1 = 0" "unat (exit_timer s1) = n"
    by auto
  have e: "unat (exit_timer s1) < 200" "unat (exit_timer s1) < 199" using i(5) Suc.prems by simp_all
  from second_fast[where atof=atof and s=s1, OF i(1-4) z e(1)] e(2) i obtain s' where
    "run atof (second_events (last_timer_val s1 + F_CPU) PHASE_ADC_MIDPOINT qe_zero_line hw_ok) s1 = Some s'"
    "tracking s'" "mode s' = 1" "unat (exit_timer s') = Suc n" "iTerm s' = 0" "enter_timer s' = 0"
    by auto
  then show ?case using s1 by simp
qed

lemma seconds_fast_200:
  assumes t: "tracking s" and m: "mode s = 1" and i0: "iTerm s = 0" "enter_timer s = 0"
    and z: "atof ''0.0'' = 0" and et: "exit_timer s = 0"
  shows "\<exists>s'. seconds atof hw_ok PHASE_ADC_MIDPOINT qe_zero_line 200 s = Some s'
           \<and> tracking s' \<and> mode s' = 2"
proof -
  from seconds_fast[where atof=atof and s=s and n=199, OF t m i0 z et] obtain s1 where
    s1: "seconds atof hw_ok PHASE_ADC_MIDPOINT qe_zero_line 199 s = Some s1"
    and i: "tracking s1" "mode s1 = 1" "iTerm s1 = 0" "enter_timer s1 = 0" "unat (exit_timer s1) = 199"
    by auto
  have e: "unat (exit_timer s1) < 200" "\<not> unat (exit_timer s1) < 199" using i(5) by simp_all
  from second_fast[where atof=atof and s=s1, OF i(1-4) z e(1)] e(2) i obtain s' where
    "run atof (second_events (last_timer_val s1 + F_CPU) PHASE_ADC_MIDPOINT qe_zero_line hw_ok) s1 = Some s'"
    "tracking s'" "mode s' = 2"
    by auto
  moreover have "seconds atof hw_ok PHASE_ADC_MIDPOINT qe_zero_line 200 s
      = (case seconds atof hw_ok PHASE_ADC_MIDPOINT qe_zero_line 199 s of None \<Rightarrow> None
         | Some s' \<Rightarrow> run atof (second_events (last_timer_val s' + F_CPU) PHASE_ADC_MIDPOINT qe_zero_line hw_ok) s')"
    using seconds.simps(2)[of atof hw_ok PHASE_ADC_MIDPOINT qe_zero_line 199 s]
    by (simp del: seconds.simps)
  ultimately show ?thesis using s1 by (simp del: seconds.simps)
qed

lemma osc_unlock_resets:
  assumes "tracking s" "mode s \<le> 3"
  shows "\<exists>s'. main_loop atof hw_unlocked s = Some s' \<and> mode s' = 0"
proof -
  let ?s1 = "writeDacValue 0 False (s\<lparr>last_osc_locked := 0\<rparr>)"
  have "mode ?s1 \<le> 3" using assms(2) by simp
  from reset_pll_Some[OF this] obtain s2 where r: "reset_pll ?s1 = Some s2" "mode s2 = 0"
    and sh: "gps_locked s2 = gps_locked ?s1" "pps_err_buf s2 = pps_err_buf ?s1"
    "pps_count s2 = pps_count ?s1" "last_pps_count s2 = last_pps_count ?s1"
    by blast
  have g: "gps_edge s = Some s" using assms(1) by (simp add: gps_edge_def tracking_def)
  have o: "osc_edge hw_unlocked s = Some s2"
    using assms(1) r by (simp add: osc_edge_def hw_unlocked_def tracking_def Let_def)
  have "mode (button hw_unlocked (leds hw_unlocked s2)) = 0"
    using r(2) by (simp add: button_def leds_def Let_def)
  then show ?thesis
    using g o by (auto simp add: main_loop_def fetch_def Let_def hw_unlocked_def)
qed

lemma second_empty:
  assumes "idle_locked s"
  shows "run atof (second_events t adc qe_empty_line hw_ok) s = Some (TCC5_CCA_vect t adc s)"
proof -
  let ?p = "TCC5_CCA_vect t adc s"
  have rb: "rx_buf ?p = []" using assms by (simp add: TCC5_CCA_vect_def idle_locked_def)
  have "?p\<lparr>pps_err_buf := []\<rparr> = ?p" by (simp add: TCC5_CCA_vect_def)
  then have rx: "run atof (map RX (qe_empty_line @ [CHR 0x0D])) ?p = Some ?p"
    using rx_qe_empty[OF rb, of atof] by simp
  have ml: "main_loop atof hw_ok ?p = Some ?p"
    using assms by (simp add: main_loop_def fetch_def gps_edge_def osc_edge_def hw_ok_def
        idle_locked_def button_def leds_def Let_def TCC5_CCA_vect_def)
  show ?thesis
    unfolding second_events_def run.simps step.simps option.case run_append rx using ml by simp
qed

lemma seconds_empty:
  assumes "idle_locked s"
  shows "\<exists>s'. seconds atof hw_ok adc qe_empty_line n s = Some s' \<and> idle_locked s' \<and> ctl s' = ctl s"
proof (induction n)
  case 0
  then show ?case using assms by simp
next
  case (Suc n)
  then obtain s1 where s1: "seconds atof hw_ok adc qe_empty_line n s = Some s1"
    and i: "idle_locked s1" "ctl s1 = ctl s" by blast
  have "idle_locked (TCC5_CCA_vect (last_timer_val s1 + F_CPU) adc s1)"
    using i(1) by (simp add: idle_locked_def TCC5_CCA_vect_def)
  then show ?case using s1 i second_empty[OF i(1), of atof "last_timer_val s1 + F_CPU" adc]
    by (simp add: pps_ctl)
qed

lemma start_mode_rule:
  "(mode (start_mode r) = MODE_FAST) =
       (mode r = MODE_FAST \<or>
        \<bar>average_pps_error r\<bar> \<le> 25 / 100 \<and>
        ((60 \<le> exit_timer r + 1 \<and> \<bar>average_phase_error r\<bar> \<le> 20) \<or> 600 \<le> exit_timer r + 1))"
  "\<not> \<bar>average_pps_error r\<bar> \<le> 25 / 100 \<Longrightarrow> exit_timer (start_mode r) = 0"
  by (auto simp add: start_mode_def Let_def)

lemma reachable_fast:
  "\<exists>s. reachable (\<lambda>t. 0) s \<and> tracking s \<and> mode s = 1 \<and> exit_timer s = 0 \<and> iTerm s = 0
        \<and> enter_timer s = 0"
proof -
  have z: "(\<lambda>t::string. 0::real) ''0.0'' = 0" by simp
  from seconds_start_60[where atof="\<lambda>t. 0" and s=locked_start, OF tracking_locked_start(1,2) z
      tracking_locked_start(3)]
  obtain s where s: "seconds (\<lambda>t. 0) hw_ok PHASE_ADC_MIDPOINT qe_zero_line 60 locked_start = Some s"
    and p: "tracking s" "mode s = 1" "exit_timer s = 0" "iTerm s = iTerm locked_start"
    "enter_timer s = enter_timer locked_start"
    by blast
  have "reachable (\<lambda>t. 0) s" using reachable_locked_start s by (rule reachable_seconds)
  then show ?thesis using p tracking_locked_start by auto
qed

lemma reachable_med:
  "\<exists>s. reachable (\<lambda>t. 0) s \<and> tracking s \<and> mode s = 2"
proof -
  have z: "(\<lambda>t::string. 0::real) ''0.0'' = 0" by simp
  from reachable_fast obtain s0 where r0: "reachable (\<lambda>t. 0) s0" and p0: "tracking s0" "mode s0 = 1"
    "exit_timer s0 = 0" "iTerm s0 = 0" "enter_timer s0 = 0" by blast
  from seconds_fast_200[where atof="\<lambda>t. 0" and s=s0, OF p0(1,2,4,5) z p0(3)]
  obtain s where s: "seconds (\<lambda>t. 0) hw_ok PHASE_ADC_MIDPOINT qe_zero_line 200 s0 = Some s"
    and p: "tracking s" "mode s = 2" by blast
  have "reachable (\<lambda>t. 0) s" using r0 s by (rule reachable_seconds)
  then show ?thesis using p by auto
qed

subsection \<open>Passes without a quantization error\<close>






subsection \<open>What a pass leaves alone\<close>













subsection \<open>No division by zero\<close>

text \<open>
  Claim C10. In every reachable state \<open>mode\<close> is one of Start, Fast, Med, Slow, so
  \<^verbatim>\<open>mode_to_tc(mode)\<close> is not its default 0; \<^verbatim>\<open>reset_pll\<close> returns (its division
  is guarded by \<open>mode \<noteq> Start\<close> and divides by a non-zero time constant),
  \<^verbatim>\<open>downgrade_mode\<close> returns whenever the mode is Fast or above, and every pass of the
  main loop returns, whatever the hardware inputs: no division of the control loop has a
  zero divisor (a zero divisor makes the model return \<open>None\<close>).
\<close>

theorem no_division_by_zero:
  assumes "reachable atof s"
  shows "mode s \<le> MODE_SLOW \<and> mode_to_tc (mode s) \<noteq> 0
       \<and> (\<exists>s'. reset_pll s = Some s')
       \<and> (mode s \<ge> MODE_FAST \<longrightarrow> (\<exists>s'. downgrade_mode s = Some s'))
       \<and> (\<forall>hw. \<exists>s'. main_loop atof hw s = Some s')"
proof -
  have m: "mode s \<le> 3" using assms by (rule reachable_mode)
  have a: "mode_to_tc (mode s) \<noteq> 0" using m by (rule mode_to_tc_ne0)
  have b: "\<exists>s'. reset_pll s = Some s'" using reset_pll_Some[OF m] by blast
  have c: "mode s \<ge> 1 \<longrightarrow> (\<exists>s'. downgrade_mode s = Some s')"
  proof
    assume "mode s \<ge> 1"
    then have "mode s \<noteq> 0" by auto
    from downgrade_mode_Some[OF m this] show "\<exists>s'. downgrade_mode s = Some s'" by blast
  qed
  have d: "\<forall>hw. \<exists>s'. main_loop atof hw s = Some s'"
    using main_loop_Some[OF m] by blast
  from m a b c d show ?thesis by blast
qed

text \<open>The theorem at a reachable state in Fast mode (boot, a fix sentence and sixty
  nominal seconds).\<close>

theorem no_division_by_zero_witness:
  "\<exists>s. reachable (\<lambda>t. 0) s \<and> mode s = MODE_FAST \<and> mode_to_tc (mode s) \<noteq> 0
       \<and> (\<exists>s'. reset_pll s = Some s') \<and> (\<exists>s'. downgrade_mode s = Some s')
       \<and> (\<exists>s'. main_loop (\<lambda>t. 0) hw_ok s = Some s')"
proof -
  from reachable_fast obtain s where r: "reachable (\<lambda>t. 0) s" and m: "mode s = 1" by blast
  have "mode s \<ge> MODE_FAST" using m by simp
  with no_division_by_zero[OF r] r m show ?thesis by blast
qed

subsection \<open>Mode changes\<close>

text \<open>
  Claim C6 (as amended). In every reachable execution \<open>mode\<close> stays within Start .. Slow,
  and every step (pulse, received character or pass of the main loop) leaves \<open>mode\<close> as
  it is, moves it by exactly one step up or down, or is a reset that puts it to Start from
  whatever mode it was in, with \<open>iTerm\<close>, both averages and \<open>exit_timer\<close> zeroed.
\<close>

theorem mode_moves_one_step_or_resets:
  assumes "reachable atof s" and "step atof e s = Some s'"
  shows "mode s' \<le> MODE_SLOW
       \<and> (mode s' = mode s \<or> mode s' = mode s + 1 \<or> mode s' = mode s - 1
           \<or> (mode s' = MODE_START \<and> iTerm s' = 0 \<and> average_phase_error s' = 0
               \<and> average_pps_error s' = 0 \<and> exit_timer s' = 0))"
  using step_mode_step[OF reachable_mode[OF assms(1)] assms(2)]
  by (simp add: mode_step_def)

text \<open>The theorem at a reachable state in Fast mode and the pass that sees the
  oscillator unlocked.\<close>

theorem mode_moves_witness:
  "\<exists>s s'. reachable (\<lambda>t. 0) s \<and> step (\<lambda>t. 0) (LOOP hw_unlocked) s = Some s'
       \<and> mode s = MODE_FAST \<and> mode s' = MODE_START \<and> mode s' \<le> MODE_SLOW \<and> mode s' = mode s - 1"
proof -
  from reachable_fast obtain s where r: "reachable (\<lambda>t. 0) s" and m: "mode s = 1" and t: "tracking s"
    by blast
  have "mode s \<le> 3" using m by simp
  from osc_unlock_resets[OF t this, of "\<lambda>t. 0"] obtain s' where
    st: "step (\<lambda>t. 0) (LOOP hw_unlocked) s = Some s'" and m': "mode s' = 0" by auto
  from mode_moves_one_step_or_resets[OF r st] have "mode s' \<le> MODE_SLOW" by blast
  then show ?thesis using r st m m' by auto
qed

text \<open>
  Claim C6 as stated fails: a state in Med mode is reachable (boot, a fix sentence, sixty
  nominal seconds in Start and two hundred in Fast), and the pass that sees the oscillator
  unlocked takes it to Start, two steps down, without visiting Fast.
\<close>

theorem reset_jumps_from_med_counterexample:
  "\<exists>s s'. reachable (\<lambda>t. 0) s \<and> step (\<lambda>t. 0) (LOOP hw_unlocked) s = Some s'
       \<and> mode s = MODE_MED \<and> mode s' = MODE_START
       \<and> mode s' \<noteq> mode s \<and> mode s' \<noteq> mode s + 1 \<and> mode s' \<noteq> mode s - 1"
proof -
  from reachable_med obtain s where r: "reachable (\<lambda>t. 0) s" and m: "mode s = 2" and t: "tracking s"
    by blast
  have "mode s \<le> 3" using m by simp
  from osc_unlock_resets[OF t this, of "\<lambda>t. 0"] obtain s' where
    st: "step (\<lambda>t. 0) (LOOP hw_unlocked) s = Some s'" and m': "mode s' = 0" by auto
  show ?thesis using r st m m' by auto
qed

subsection \<open>Leaving Start mode\<close>

text \<open>
  Claim C5 (as amended). From a Start state with zeroed averages and \<open>exit_timer = 0\<close>
  (GPS and oscillator locked), let every second bring a pulse exactly \<open>F_CPU\<close> cycles after
  the last one with the ADC at its midpoint, then a quantization error sentence whose text
  \<open>0.0\<close> converts to zero, then a pass of the loop. After \<open>n < 60\<close> such seconds the mode
  is still Start with \<open>exit_timer = n\<close>; after 60 it is Fast; \<open>average_pps_error\<close> is 0
  throughout. In general a pass in Start mode promotes to Fast exactly when
  \<open>|average_pps_error| \<le> 0.25\<close> and either the incremented \<open>exit_timer\<close> has reached 60
  with \<open>|average_phase_error| \<le> 20\<close>, or it has reached 600.
\<close>

theorem start_promotes_at_tick_60:
  assumes "tracking s" and "mode s = MODE_START" and "exit_timer s = 0" and "atof ''0.0'' = 0"
  shows "(\<forall>n<60. \<exists>s'. seconds atof hw_ok PHASE_ADC_MIDPOINT qe_zero_line n s = Some s'
                 \<and> mode s' = MODE_START \<and> unat (exit_timer s') = n \<and> average_pps_error s' = 0)
       \<and> (\<exists>s'. seconds atof hw_ok PHASE_ADC_MIDPOINT qe_zero_line 60 s = Some s'
                 \<and> mode s' = MODE_FAST \<and> average_pps_error s' = 0)
       \<and> (\<forall>r. mode r = MODE_START \<longrightarrow>
              (mode (start_mode r) = MODE_FAST) =
                (\<bar>average_pps_error r\<bar> \<le> 25 / 100 \<and>
                 ((60 \<le> exit_timer r + 1 \<and> \<bar>average_phase_error r\<bar> \<le> 20)
                  \<or> 600 \<le> exit_timer r + 1)))"
proof -
  have a: "\<forall>n<60. \<exists>s'. seconds atof hw_ok PHASE_ADC_MIDPOINT qe_zero_line n s = Some s'
                 \<and> mode s' = MODE_START \<and> unat (exit_timer s') = n \<and> average_pps_error s' = 0"
  proof (intro allI impI)
    fix n :: nat assume "n < 60"
    from seconds_start[where atof=atof and s=s and n=n, OF assms(1,2,4,3) this]
    show "\<exists>s'. seconds atof hw_ok PHASE_ADC_MIDPOINT qe_zero_line n s = Some s'
                 \<and> mode s' = MODE_START \<and> unat (exit_timer s') = n \<and> average_pps_error s' = 0"
      by (auto simp add: tracking_def)
  qed
  have b: "\<exists>s'. seconds atof hw_ok PHASE_ADC_MIDPOINT qe_zero_line 60 s = Some s'
                 \<and> mode s' = MODE_FAST \<and> average_pps_error s' = 0"
    using seconds_start_60[where atof=atof and s=s, OF assms(1,2,4,3)]
    by (auto simp add: tracking_def)
  have c: "\<forall>r. mode r = MODE_START \<longrightarrow>
              (mode (start_mode r) = MODE_FAST) =
                (\<bar>average_pps_error r\<bar> \<le> 25 / 100 \<and>
                 ((60 \<le> exit_timer r + 1 \<and> \<bar>average_phase_error r\<bar> \<le> 20)
                  \<or> 600 \<le> exit_timer r + 1))"
    by (simp add: start_mode_rule(1))
  from a b c show ?thesis by blast
qed

text \<open>The theorem from the state after boot, a fix sentence and one pass, at 59 and at 60
  seconds.\<close>

theorem start_promotes_witness:
  "tracking locked_start \<and> mode locked_start = MODE_START \<and> exit_timer locked_start = 0
   \<and> (\<exists>s'. seconds (\<lambda>t. 0) hw_ok PHASE_ADC_MIDPOINT qe_zero_line 59 locked_start = Some s'
          \<and> mode s' = MODE_START \<and> unat (exit_timer s') = 59 \<and> average_pps_error s' = 0)
   \<and> (\<exists>s'. seconds (\<lambda>t. 0) hw_ok PHASE_ADC_MIDPOINT qe_zero_line 60 locked_start = Some s'
          \<and> mode s' = MODE_FAST \<and> average_pps_error s' = 0)"
proof -
  have z: "(\<lambda>t::string. 0::real) ''0.0'' = 0" by simp
  have n: "(59::nat) < 60" by simp
  from start_promotes_at_tick_60[where atof="\<lambda>t. 0" and s=locked_start,
      OF tracking_locked_start(1,2,3) z] n tracking_locked_start
  show ?thesis by blast
qed

text \<open>
  Claim C5 as stated fails: when the quantization error text is empty each time, sixty
  nominal seconds leave the mode at Start and \<open>exit_timer\<close> at 0, since a pass that finds
  the text empty does not process the pulse.
\<close>

theorem empty_qe_never_promotes_counterexample:
  "tracking locked_start \<and> mode locked_start = MODE_START \<and> exit_timer locked_start = 0
   \<and> (\<exists>s'. seconds (\<lambda>t. 0) hw_ok PHASE_ADC_MIDPOINT qe_empty_line 60 locked_start = Some s'
          \<and> mode s' = MODE_START \<and> exit_timer s' = 0)"
proof -
  have "idle_locked locked_start" by (simp add: idle_locked_def locked_start_def boot_def)
  from seconds_empty[OF this, of "\<lambda>t. 0" PHASE_ADC_MIDPOINT 60]
  show ?thesis using tracking_locked_start by (auto simp add: ctl_def)
qed

subsection \<open>A capture without its quantization error\<close>




subsection \<open>Pairing of capture and quantization error\<close>



end
